theory Spec2Isabelle
  imports Main "HOL-Library.List_Lexorder" "HOL-Library.Char_ord"
begin

section \<open>Data model\<close>

text \<open>
  Addresses and hashes are JavaScript strings, block numbers, nonces, rounds and stakes are
  JavaScript numbers holding integers, given by the integer. The numbers that the election
  of the proposer adds, multiplies and compares are IEEE 754 doubles, modelled below with
  their rounding. A transaction carries the fields the node reads (\<open>address\<close>, \<open>nonce\<close>) and
  its write operation, a reference path with a JSON value. A block is a parsed \<open>Block\<close>
  instance, for which \<open>Block.parse\<close> returns its argument. The \<open>validators\<close> object of a
  block is an association list in the order of \<open>Object.keys\<close>; a JavaScript object has
  every key once.
\<close>

datatype error = TypeError | AlreadySetBackupDb

datatype dbvalue = Null | Number int | Str string | Object "(string \<times> dbvalue) list"

datatype operation = SET_VALUE "string list" dbvalue | SET "operation list"

record tx =
  address :: string
  nonce :: int
  operation :: operation

record block =
  number :: int
  hash :: string
  last_hash :: string
  timestamp :: int
  transactions :: "tx list"
  proposer :: string
  validators :: "(string \<times> int) list"

text \<open>
  The block store (class \<open>Blockchain\<close>): the in-memory window \<open>chain\<close>, the snapshot db
  \<open>backupDb\<close> (\<open>null\<close> until \<open>setBackupDb\<close>), the latch \<open>syncedAfterStartup\<close>, and the
  block files of the chain directory, each file given by the block it holds. The database
  class is not part of the sources, so the store is polymorphic in the type \<open>'db\<close> of
  databases and its operations are parameters.
\<close>

record 'db blockchain =
  chain :: "block list"
  backupDb :: "'db option"
  syncedAfterStartup :: bool
  files :: "block list"

section \<open>JavaScript numbers\<close>

text \<open>
  A double is \<open>m * 2^e\<close> for integers \<open>m\<close> and \<open>e\<close> (one value has several such pairs),
  an infinity, or \<open>NaN\<close>. The sign of a zero is not kept: addition, multiplication and
  \<open>>\<close> give the same for both zeros, up to that sign. \<open>bits\<close> is the length of the binary
  numeral of a positive integer. \<open>round53\<close> is the rounding of IEEE 754 in binary64 to the
  nearest double, ties to the even significand: at most 53 significant bits, no exponent
  below \<open>-1074\<close> (gradual underflow), an infinity from \<open>2^1024\<close> on. Sum and product are
  the exact ones, rounded once; the comparison is exact, and false on \<open>NaN\<close>.
\<close>

datatype double = Finite int int | PosInfinity | NegInfinity | NaN

function bits :: "int \<Rightarrow> int" where
  "bits n = (if n \<le> 0 then 0 else 1 + bits (n div 2))"
  by pat_completeness auto
termination
  by (relation "measure nat") auto

declare bits.simps [simp del]

definition finiteOrInfinity :: "int \<Rightarrow> int \<Rightarrow> double" where
  "finiteOrInfinity m e =
     (if m \<noteq> 0 \<and> bits \<bar>m\<bar> + e > 1024 then (if m > 0 then PosInfinity else NegInfinity)
      else Finite m e)"

definition round53 :: "int \<Rightarrow> int \<Rightarrow> double" where
  "round53 m e =
     (let k = max (bits \<bar>m\<bar> - 53) (- 1074 - e)
      in if k \<le> 0 then finiteOrInfinity m e
         else
           (let q = m div 2 ^ nat k;
                r = m mod 2 ^ nat k;
                q' = (if 2 * r > 2 ^ nat k \<or> (2 * r = 2 ^ nat k \<and> odd q) then q + 1 else q)
            in finiteOrInfinity q' (e + k)))"

fun fadd :: "double \<Rightarrow> double \<Rightarrow> double" where
  "fadd (Finite m1 e1) (Finite m2 e2) =
     (let e = min e1 e2 in round53 (m1 * 2 ^ nat (e1 - e) + m2 * 2 ^ nat (e2 - e)) e)"
| "fadd NaN y = NaN"
| "fadd x NaN = NaN"
| "fadd PosInfinity NegInfinity = NaN"
| "fadd NegInfinity PosInfinity = NaN"
| "fadd PosInfinity y = PosInfinity"
| "fadd NegInfinity y = NegInfinity"
| "fadd x PosInfinity = PosInfinity"
| "fadd x NegInfinity = NegInfinity"

fun fmul :: "double \<Rightarrow> double \<Rightarrow> double" where
  "fmul (Finite m1 e1) (Finite m2 e2) = round53 (m1 * m2) (e1 + e2)"
| "fmul NaN y = NaN"
| "fmul x NaN = NaN"
| "fmul (Finite m e) PosInfinity =
     (if m = 0 then NaN else if m > 0 then PosInfinity else NegInfinity)"
| "fmul (Finite m e) NegInfinity =
     (if m = 0 then NaN else if m > 0 then NegInfinity else PosInfinity)"
| "fmul PosInfinity (Finite m e) =
     (if m = 0 then NaN else if m > 0 then PosInfinity else NegInfinity)"
| "fmul NegInfinity (Finite m e) =
     (if m = 0 then NaN else if m > 0 then NegInfinity else PosInfinity)"
| "fmul PosInfinity PosInfinity = PosInfinity"
| "fmul PosInfinity NegInfinity = NegInfinity"
| "fmul NegInfinity PosInfinity = NegInfinity"
| "fmul NegInfinity NegInfinity = PosInfinity"

fun greater :: "double \<Rightarrow> double \<Rightarrow> bool" where
  "greater (Finite m1 e1) (Finite m2 e2) =
     (let e = min e1 e2 in m1 * 2 ^ nat (e1 - e) > m2 * 2 ^ nat (e2 - e))"
| "greater NaN y = False"
| "greater x NaN = False"
| "greater PosInfinity PosInfinity = False"
| "greater PosInfinity y = True"
| "greater x PosInfinity = False"
| "greater NegInfinity y = False"
| "greater x NegInfinity = True"

text \<open>
  The double that holds an integer: the integer itself up to \<open>2^53\<close>, the nearest double
  beyond, as for a numeric literal.
\<close>

definition fromInt :: "int \<Rightarrow> double" where
  "fromInt n = round53 n 0"

section \<open>Block store\<close>

definition lastBlock :: "'db blockchain \<Rightarrow> block option" where
  "lastBlock bc = (if length (chain bc) = 0 then None else Some (chain bc ! (length (chain bc) - 1)))"

definition lastBlockNumber :: "'db blockchain \<Rightarrow> int" where
  "lastBlockNumber bc = (case lastBlock bc of None \<Rightarrow> - 1 | Some b \<Rightarrow> number b)"

definition setBackupDb :: "'db \<Rightarrow> 'db blockchain \<Rightarrow> error + 'db blockchain" where
  "setBackupDb d bc =
     (if backupDb bc \<noteq> None then Inl AlreadySetBackupDb else Inr (bc\<lparr>backupDb := Some d\<rparr>))"

text \<open>
  Modelled from the spec: \<open>Block.getFileName\<close> is not part of the sources; the name of a
  block file encodes the number and the hash of the block.
\<close>

definition getFileName :: "block \<Rightarrow> int \<times> string" where
  "getFileName b = (number b, hash b)"

text \<open>
  \<open>writeChain\<close>: every block of the window whose file does not exist yet is written.
\<close>

definition writeBlock :: "block list \<Rightarrow> block \<Rightarrow> block list" where
  "writeBlock fs b = (if getFileName b \<in> set (map getFileName fs) then fs else fs @ [b])"

definition writeChain :: "'db blockchain \<Rightarrow> 'db blockchain" where
  "writeChain bc = bc\<lparr>files := foldl writeBlock (files bc) (chain bc)\<rparr>"

text \<open>
  The loop \<open>while (this.chain.length > 10)\<close> of \<open>addNewBlock\<close>: the oldest block is shifted
  out and its transaction list is executed on the snapshot db. Calling a method of a
  \<open>null\<close> snapshot db throws.
\<close>

function shiftOut ::
  "(tx list \<Rightarrow> 'db \<Rightarrow> 'db) \<Rightarrow> block list \<Rightarrow> 'db option \<Rightarrow> error + (block list \<times> 'db option)" where
  "shiftOut executeTransactionList ch bdb =
     (if length ch > 10 then
        (case bdb of
           None \<Rightarrow> Inl TypeError
         | Some d \<Rightarrow>
             shiftOut executeTransactionList (tl ch)
               (Some (executeTransactionList (transactions (hd ch)) d)))
      else Inr (ch, bdb))"
  by pat_completeness auto
termination
  by (relation "measure (\<lambda>(e, ch, bdb). length ch)") auto

declare shiftOut.simps [simp del]

definition addNewBlock ::
  "(tx list \<Rightarrow> 'db \<Rightarrow> 'db) \<Rightarrow> block option \<Rightarrow> 'db blockchain \<Rightarrow> error + (bool \<times> 'db blockchain)" where
  "addNewBlock executeTransactionList blk bc =
     (case blk of
        None \<Rightarrow> Inr (False, bc)
      | Some b \<Rightarrow>
          if number b \<noteq> lastBlockNumber bc + 1 then Inr (False, bc)
          else
            (case shiftOut executeTransactionList (chain bc @ [b]) (backupDb bc) of
               Inl e \<Rightarrow> Inl e
             | Inr (ch, bdb) \<Rightarrow> Inr (True, writeChain (bc\<lparr>chain := ch, backupDb := bdb\<rparr>))))"

text \<open>
  \<open>isValidChainSubsection\<close>: the loop from index 1 compares each block with its predecessor.
  \<open>Block.validateHashes\<close> is not part of the sources and is a parameter.
\<close>

fun isValidChainSubsection :: "(block \<Rightarrow> bool) \<Rightarrow> block list \<Rightarrow> bool" where
  "isValidChainSubsection validateHashes (p # b # bs) =
     (if last_hash b \<noteq> hash p \<or> \<not> validateHashes b then False
      else isValidChainSubsection validateHashes (b # bs))"
| "isValidChainSubsection validateHashes bs = True"

text \<open>
  The appending loop of \<open>merge\<close>, with its index \<open>i\<close>: the first block is skipped when
  the local last hash is truthy, and the first failing \<open>addNewBlock\<close> aborts the merge
  (the blocks appended before it stay).
\<close>

fun mergeBlocks ::
  "(tx list \<Rightarrow> 'db \<Rightarrow> 'db) \<Rightarrow> bool \<Rightarrow> nat \<Rightarrow> block list \<Rightarrow> 'db blockchain
     \<Rightarrow> error + (bool \<times> 'db blockchain)" where
  "mergeBlocks executeTransactionList skipFirst i [] bc = Inr (True, bc)"
| "mergeBlocks executeTransactionList skipFirst i (b # bs) bc =
     (if skipFirst \<and> i = 0 then mergeBlocks executeTransactionList skipFirst (i + 1) bs bc
      else
        (case addNewBlock executeTransactionList (Some b) bc of
           Inl e \<Rightarrow> Inl e
         | Inr (ok, bc') \<Rightarrow>
             if \<not> ok then Inr (False, bc')
             else mergeBlocks executeTransactionList skipFirst (i + 1) bs bc'))"

definition flagSynced :: "'db blockchain \<Rightarrow> 'db blockchain" where
  "flagSynced bc = (if \<not> syncedAfterStartup bc then bc\<lparr>syncedAfterStartup := True\<rparr> else bc)"

definition merge ::
  "(tx list \<Rightarrow> 'db \<Rightarrow> 'db) \<Rightarrow> (block \<Rightarrow> bool) \<Rightarrow> block list \<Rightarrow> 'db blockchain
     \<Rightarrow> error + (bool \<times> 'db blockchain)" where
  "merge executeTransactionList validateHashes chainSubSection bc =
     (if length chainSubSection = 0 then Inr (False, flagSynced bc)
      else if number (chainSubSection ! (length chainSubSection - 1)) < lastBlockNumber bc
        then Inr (False, bc)
      else if number (chainSubSection ! (length chainSubSection - 1)) = lastBlockNumber bc
        then Inr (False, flagSynced bc)
      else
        (let firstBlock = chainSubSection ! 0;
             lastBlockHash =
               (if lastBlockNumber bc \<ge> 0 then map_option hash (lastBlock bc) else None);
             truthy = (case lastBlockHash of None \<Rightarrow> False | Some h \<Rightarrow> h \<noteq> [])
         in
           if truthy \<and> lastBlockHash \<noteq> Some (hash firstBlock) then Inr (False, bc)
           else if \<not> truthy \<and> last_hash firstBlock \<noteq> [] then Inr (False, bc)
           else if \<not> isValidChainSubsection validateHashes chainSubSection then Inr (False, bc)
           else mergeBlocks executeTransactionList truthy 0 chainSubSection bc))"

text \<open>
  Modelled from the spec: \<open>BlockFilePatterns\<close> and the file globbing are not part of the
  sources; \<open>getBlockFiles(from, to)\<close> yields the block files with \<open>from \<le> number < to\<close>,
  sorted by number. A file is given by the block that \<open>Block.loadBlock\<close> reads from it.
\<close>

definition getBlockFiles :: "'db blockchain \<Rightarrow> int \<Rightarrow> int \<Rightarrow> block list" where
  "getBlockFiles bc from to =
     sort_key number (filter (\<lambda>b. from \<le> number b \<and> number b < to) (files bc))"

definition getBlockByNumber :: "'db blockchain \<Rightarrow> int \<Rightarrow> block option" where
  "getBlockByNumber bc n =
     (let blockFiles = getBlockFiles bc n (n + 1)
      in if blockFiles = [] then None else Some (last blockFiles))"

definition CHAIN_SUBSECT_LENGTH :: int where
  "CHAIN_SUBSECT_LENGTH = 20"

text \<open>
  \<open>requestBlockchainSection\<close> returns a list of blocks, \<open>null\<close>, or nothing (a bare
  \<open>return\<close>); reading \<open>hash\<close> of a \<open>null\<close> last block throws.
\<close>

datatype section_reply = NoValue | NullValue | Section "block list"

definition requestBlockchainSection ::
  "block option \<Rightarrow> 'db blockchain \<Rightarrow> error + section_reply" where
  "requestBlockchainSection refBlock bc =
     (let refBlockNumber = (case refBlock of None \<Rightarrow> 0 | Some r \<Rightarrow> number r);
          blockFiles = getBlockFiles bc refBlockNumber (refBlockNumber + CHAIN_SUBSECT_LENGTH)
      in
        if length blockFiles > 0
           \<and> number (blockFiles ! (length blockFiles - 1)) > refBlockNumber
           \<and> (case refBlock of
                 None \<Rightarrow> False
               | Some r \<Rightarrow> getFileName (blockFiles ! 0) \<noteq> getFileName r)
        then Inr NoValue
        else
          (let refBlockHash = map_option hash refBlock
           in case lastBlock bc of
                None \<Rightarrow> Inl TypeError
              | Some lb \<Rightarrow>
                  if refBlockHash = Some (hash lb) then Inr (Section [lb])
                  else if length blockFiles > 0 then Inr (Section blockFiles)
                  else Inr NullValue))"

section \<open>Node\<close>

text \<open>
  The database, the transaction pool, the address and block utilities, the PRNG and the
  configuration constants are not part of the sources. They are parameters, collected in
  one record: \<open>'db\<close> is the type of databases, \<open>'tp\<close> the type of transaction pools.
  \<open>setDbToSnapshot\<close> takes the snapshot it is given (possibly \<open>null\<close>) and the live db and
  yields the new live db; \<open>getDeposit\<close> is \<open>db.getValue\<close> at a deposit account, \<open>now\<close> is
  \<open>Date.now()\<close>.
\<close>

record deposit =
  deposit_value :: int
  expire_at :: int

record txdata =
  td_operation :: operation
  td_nonce :: int

record account =
  account_address :: string
  private_key :: string

record ('db, 'tp) externals =
  executeTransactionList :: "tx list \<Rightarrow> 'db \<Rightarrow> 'db"
  setDbToSnapshot :: "'db option \<Rightarrow> 'db \<Rightarrow> 'db"
  newDB :: 'db
  getDeposit :: "'db \<Rightarrow> string \<Rightarrow> deposit option"
  getValidTransactions :: "'tp \<Rightarrow> tx list"
  updateNonceTrackers :: "tx list \<Rightarrow> 'tp \<Rightarrow> 'tp"
  cleanUpForNewBlock :: "block \<Rightarrow> 'tp \<Rightarrow> 'tp"
  areSameAddresses :: "string \<Rightarrow> string \<Rightarrow> bool"
  newTransaction :: "string \<Rightarrow> txdata \<Rightarrow> tx"
  validateHashes :: "block \<Rightarrow> bool"
  validateProposedBlock :: "block \<Rightarrow> 'db blockchain \<Rightarrow> bool"
  seedrandom :: "string \<Rightarrow> double"
  STAKE :: int
  MAX_CONSENSUS_STATE_DB :: int
  TRANSITION_TIMEOUT_MS :: int
  DAY_MS :: int
  now :: int

record ('db, 'tp) node =
  bc :: "'db blockchain"
  tp :: 'tp
  db :: 'db
  node_nonce :: "int option"
  initialized :: bool
  account :: account

text \<open>
  \<open>getNonce\<close>: the outer loop runs over the window from the newest block to the oldest, the
  inner loop over a block's transactions from the last to the first; both are given the
  reversed list. The inner loop stops at the first matching transaction, the outer loop
  once \<open>nonce > 0\<close>.
\<close>

fun getNonce_txs :: "(string \<Rightarrow> string \<Rightarrow> bool) \<Rightarrow> string \<Rightarrow> int \<Rightarrow> tx list \<Rightarrow> int" where
  "getNonce_txs same a n [] = n"
| "getNonce_txs same a n (t # ts) =
     (if same (address t) a \<and> nonce t > - 1 then nonce t + 1 else getNonce_txs same a n ts)"

fun getNonce_blocks :: "(string \<Rightarrow> string \<Rightarrow> bool) \<Rightarrow> string \<Rightarrow> int \<Rightarrow> block list \<Rightarrow> int" where
  "getNonce_blocks same a n [] = n"
| "getNonce_blocks same a n (b # bs) =
     (let n' = getNonce_txs same a n (rev (transactions b))
      in if n' > 0 then n' else getNonce_blocks same a n' bs)"

definition getNonce :: "('db, 'tp) externals \<Rightarrow> ('db, 'tp) node \<Rightarrow> int" where
  "getNonce X nd =
     getNonce_blocks (areSameAddresses X) (account_address (account nd)) 0 (rev (chain (bc nd)))"

definition executeChainOnDb :: "('db, 'tp) externals \<Rightarrow> ('db, 'tp) node \<Rightarrow> ('db, 'tp) node" where
  "executeChainOnDb X nd =
     foldl (\<lambda>n b. n\<lparr>db := executeTransactionList X (transactions b) (db n),
                     tp := updateNonceTrackers X (transactions b) (tp n)\<rparr>)
       nd (chain (bc nd))"

definition reconstruct :: "('db, 'tp) externals \<Rightarrow> ('db, 'tp) node \<Rightarrow> ('db, 'tp) node" where
  "reconstruct X nd =
     (let n1 = nd\<lparr>db := setDbToSnapshot X (backupDb (bc nd)) (db nd)\<rparr>;
          n2 = executeChainOnDb X n1
      in n2\<lparr>db := executeTransactionList X (getValidTransactions X (tp n2)) (db n2)\<rparr>)"

text \<open>
  \<open>Node.init\<close> after \<open>this.bc.init(isFirstNode)\<close> has loaded the window from the chain
  directory: the snapshot db is bound, the nonce computed, the live db reconstructed.
\<close>

definition node_init :: "('db, 'tp) externals \<Rightarrow> ('db, 'tp) node \<Rightarrow> error + ('db, 'tp) node" where
  "node_init X nd =
     (case setBackupDb (newDB X) (bc nd) of
        Inl e \<Rightarrow> Inl e
      | Inr bc' \<Rightarrow>
          (let n1 = nd\<lparr>bc := bc'\<rparr>;
               n2 = n1\<lparr>node_nonce := Some (getNonce X n1)\<rparr>;
               n3 = reconstruct X n2
           in Inr (n3\<lparr>initialized := True\<rparr>)))"

definition node_addNewBlock ::
  "('db, 'tp) externals \<Rightarrow> block \<Rightarrow> ('db, 'tp) node \<Rightarrow> error + (bool \<times> ('db, 'tp) node)" where
  "node_addNewBlock X b nd =
     (case addNewBlock (executeTransactionList X) (Some b) (bc nd) of
        Inl e \<Rightarrow> Inl e
      | Inr (ok, bc') \<Rightarrow>
          if ok then
            Inr (True, reconstruct X (nd\<lparr>bc := bc', tp := cleanUpForNewBlock X b (tp nd)\<rparr>))
          else Inr (False, nd\<lparr>bc := bc'\<rparr>))"

section \<open>Consensus engine\<close>

text \<open>
  The engine holds the node, its status, the armed timeout and the consensus state. The
  calls it makes on the server object are recorded in order in \<open>server\<close>; the timers of the
  runtime that are pending are in \<open>timers\<close>, each with the identifier \<open>setTimeout\<close> returned
  for it (a \<open>Timeout\<close> object, always truthy), its callback and its delay.
\<close>

datatype status = STARTING | INITIALIZED | RUNNING | STOPPED

record timeout_info =
  ti_number :: int
  ti_round :: int

datatype callback = HandleTimeout timeout_info | TryPropose

record message =
  msg_type :: string
  msg_value :: "block option"

datatype event =
    RequestChainSubsection "block option"
  | BroadcastConsensusMessage message
  | ExecuteAndBroadcastTransaction tx

record consensus_state =
  state_number :: int
  state_round :: int
  state_proposer :: "string option"

record ('db, 'tp) consensus =
  node :: "('db, 'tp) node"
  server :: "event list"
  status :: status
  timeoutId :: "nat option"
  timeoutInfo :: "timeout_info option"
  state :: consensus_state
  timers :: "(nat \<times> callback \<times> int) list"
  nextTimerId :: nat

definition setTimeout ::
  "callback \<Rightarrow> int \<Rightarrow> ('db, 'tp) consensus \<Rightarrow> nat \<times> ('db, 'tp) consensus" where
  "setTimeout cb ms c =
     (nextTimerId c, c\<lparr>timers := timers c @ [(nextTimerId c, cb, ms)],
                       nextTimerId := Suc (nextTimerId c)\<rparr>)"

definition clearTimeout :: "nat \<Rightarrow> ('db, 'tp) consensus \<Rightarrow> ('db, 'tp) consensus" where
  "clearTimeout i c = c\<lparr>timers := filter (\<lambda>t. fst t \<noteq> i) (timers c)\<rparr>"

definition scheduleTimeout ::
  "timeout_info \<Rightarrow> int \<Rightarrow> ('db, 'tp) consensus \<Rightarrow> ('db, 'tp) consensus" where
  "scheduleTimeout newTimeoutInfo durationMs c =
     (let install = (\<lambda>c0.
            (let (i, c1) = setTimeout (HandleTimeout newTimeoutInfo) durationMs
                             (c0\<lparr>timeoutInfo := Some newTimeoutInfo\<rparr>)
             in c1\<lparr>timeoutId := Some i\<rparr>))
      in case timeoutInfo c of
           None \<Rightarrow> install c
         | Some ti \<Rightarrow>
             if ti_number newTimeoutInfo < ti_number ti
                \<or> (ti_number newTimeoutInfo = ti_number ti \<and> ti_round newTimeoutInfo < ti_round ti)
             then c
             else install (case timeoutId c of None \<Rightarrow> c | Some i \<Rightarrow> clearTimeout i c))"

text \<open>
  String concatenation with a number (\<open>seedBlock.hash + this.state.round\<close>) appends the
  decimal numeral of the integer.
\<close>

function decimal_nat :: "nat \<Rightarrow> string" where
  "decimal_nat n =
     (if n < 10 then [''0123456789'' ! n]
      else decimal_nat (n div 10) @ [''0123456789'' ! (n mod 10)])"
  by pat_completeness auto
termination
  by (relation "measure (\<lambda>n. n)") auto

declare decimal_nat.simps [simp del]

definition decimal :: "int \<Rightarrow> string" where
  "decimal i = (if i < 0 then ''-'' @ decimal_nat (nat (- i)) else decimal_nat (nat i))"

definition getValidatorsAtNumber ::
  "('db, 'tp) externals \<Rightarrow> int \<Rightarrow> ('db, 'tp) consensus \<Rightarrow> (string \<times> int) list option" where
  "getValidatorsAtNumber X n c =
     (if n = 1 then
        Some (if STAKE X > 0 then [(account_address (account (node c)), STAKE X)] else [])
      else
        (case lastBlock (bc (node c)) of
           None \<Rightarrow> None
         | Some b \<Rightarrow> Some (validators b)))"

text \<open>
  \<open>validators[address]\<close>, as a double; for an absent key it is \<open>undefined\<close>, which the
  addition turns into \<open>NaN\<close>.
\<close>

definition stakeOf :: "(string \<times> int) list \<Rightarrow> string \<Rightarrow> double" where
  "stakeOf vs a = (case map_of vs a of None \<Rightarrow> NaN | Some st \<Rightarrow> fromInt st)"

text \<open>
  The loop of \<open>selectProposer\<close> over the sorted addresses, with the running \<open>cumulative\<close>.
\<close>

fun selectLoop ::
  "(string \<times> int) list \<Rightarrow> double \<Rightarrow> double \<Rightarrow> string list \<Rightarrow> string option" where
  "selectLoop vs targetValue cumulative [] = None"
| "selectLoop vs targetValue cumulative (a # as) =
     (if greater (fadd cumulative (stakeOf vs a)) targetValue then Some a
      else selectLoop vs targetValue (fadd cumulative (stakeOf vs a)) as)"

text \<open>
  The number of times the loop evaluates \<open>cumulative > targetValue\<close>.
\<close>

fun selectLoop_comparisons ::
  "(string \<times> int) list \<Rightarrow> double \<Rightarrow> double \<Rightarrow> string list \<Rightarrow> nat" where
  "selectLoop_comparisons vs targetValue cumulative [] = 0"
| "selectLoop_comparisons vs targetValue cumulative (a # as) =
     (if greater (fadd cumulative (stakeOf vs a)) targetValue then 1
      else 1 + selectLoop_comparisons vs targetValue (fadd cumulative (stakeOf vs a)) as)"

definition seedBlockOf :: "('db, 'tp) externals \<Rightarrow> ('db, 'tp) consensus \<Rightarrow> block option" where
  "seedBlockOf X c =
     (if state_number (state c) \<le> MAX_CONSENSUS_STATE_DB X then lastBlock (bc (node c))
      else getBlockByNumber (bc (node c)) (state_number (state c) - MAX_CONSENSUS_STATE_DB X))"

definition selectProposer ::
  "('db, 'tp) externals \<Rightarrow> ('db, 'tp) consensus \<Rightarrow> error + string option" where
  "selectProposer X c =
     (case getValidatorsAtNumber X (state_number (state c)) c of
        None \<Rightarrow> Inr None
      | Some vs \<Rightarrow>
          if length (map fst vs) = 0 then Inr None
          else
            (case seedBlockOf X c of
               None \<Rightarrow> Inl TypeError
             | Some seedBlock \<Rightarrow>
                 (let seed = hash seedBlock @ decimal (state_round (state c));
                      alphabeticallyOrderedValidators = sort (map fst vs);
                      totalAtStake = foldl fadd (Finite 0 0) (map (\<lambda>v. fromInt (snd v)) vs);
                      targetValue = fmul (seedrandom X seed) totalAtStake
                  in Inr (selectLoop vs targetValue (Finite 0 0)
                            alphabeticallyOrderedValidators))))"

definition getValidConsensusDeposit ::
  "('db, 'tp) externals \<Rightarrow> string \<Rightarrow> ('db, 'tp) consensus \<Rightarrow> int" where
  "getValidConsensusDeposit X a c =
     (case getDeposit X (db (node c)) a of
        None \<Rightarrow> 0
      | Some d \<Rightarrow>
          if deposit_value d > 0 \<and> expire_at d > now X + DAY_MS X then deposit_value d else 0)"

text \<open>
  \<open>tryRegister\<close>: \<open>createTransaction\<close> with \<open>isNoncedTransaction = false\<close>, on data without
  address and nonce, gives the nonce \<open>-1\<close> and leaves the local nonce as it is.
\<close>

definition tryRegister ::
  "('db, 'tp) externals \<Rightarrow> block \<Rightarrow> ('db, 'tp) consensus \<Rightarrow> ('db, 'tp) consensus" where
  "tryRegister X b c =
     (let myAddr = account_address (account (node c));
          myStake = getValidConsensusDeposit X myAddr c
      in if myStake = 0 then c
         else
           (let registerTx = newTransaction X (private_key (account (node c)))
                  \<lparr>td_operation =
                     SET_VALUE [''consensus'', ''number'', decimal (number b), ''register'', myAddr]
                       (Object [(''block_hash'', Str (hash b)), (''stake'', Number myStake)]),
                   td_nonce = - 1\<rparr>
            in c\<lparr>server := server c @ [ExecuteAndBroadcastTransaction registerTx]\<rparr>))"

text \<open>
  \<open>updateToState\<close>: the deferred \<open>tryPropose\<close> is a pending timer; a throwing
  \<open>selectProposer\<close> propagates.
\<close>

definition updateToState ::
  "('db, 'tp) externals \<Rightarrow> ('db, 'tp) consensus \<Rightarrow> error + ('db, 'tp) consensus" where
  "updateToState X c =
     (if state_number (state c) > lastBlockNumber (bc (node c)) + 1 then Inr c
      else
        (let c1 = c\<lparr>state := (state c)\<lparr>state_number := lastBlockNumber (bc (node c)) + 1,
                                         state_round := 0\<rparr>\<rparr>
         in case selectProposer X c1 of
              Inl e \<Rightarrow> Inl e
            | Inr p \<Rightarrow>
                Inr (snd (setTimeout TryPropose (TRANSITION_TIMEOUT_MS X)
                            (c1\<lparr>state := (state c1)\<lparr>state_proposer := p\<rparr>\<rparr>)))))"

definition checkProposal :: "('db, 'tp) externals \<Rightarrow> block \<Rightarrow> ('db, 'tp) consensus \<Rightarrow> bool" where
  "checkProposal X b c =
     (if \<not> validateProposedBlock X b (bc (node c)) then False
      else if Some (proposer b) \<noteq> state_proposer (state c) then False
      else True)"

definition commit ::
  "('db, 'tp) externals \<Rightarrow> block \<Rightarrow> ('db, 'tp) consensus \<Rightarrow> error + ('db, 'tp) consensus" where
  "commit X b c =
     (case node_addNewBlock X b (node c) of
        Inl e \<Rightarrow> Inl e
      | Inr (ok, nd') \<Rightarrow>
          if ok then updateToState X (tryRegister X b (c\<lparr>node := nd'\<rparr>))
          else Inr (c\<lparr>node := nd'\<rparr>))"

definition handleConsensusMessage ::
  "('db, 'tp) externals \<Rightarrow> message \<Rightarrow> ('db, 'tp) consensus \<Rightarrow> error + ('db, 'tp) consensus" where
  "handleConsensusMessage X msg c =
     (if status c \<noteq> RUNNING then Inr c
      else if msg_type msg \<noteq> ''PROPOSE'' then Inr c
      else
        (case msg_value msg of
           None \<Rightarrow> Inr c
         | Some v \<Rightarrow>
             if number v \<noteq> state_number (state c) then
               (if number v > state_number (state c) then
                  Inr (c\<lparr>node := (node c)\<lparr>bc := (bc (node c))\<lparr>syncedAfterStartup := False\<rparr>\<rparr>,
                         server := server c @ [RequestChainSubsection (lastBlock (bc (node c)))]\<rparr>)
                else Inr c)
             else if checkProposal X v c then
               (case commit X v c of
                  Inl e \<Rightarrow> Inl e
                | Inr c' \<Rightarrow> Inr (c'\<lparr>server := server c' @ [BroadcastConsensusMessage msg]\<rparr>))
             else Inr c))"

section \<open>The specification's wording\<close>

text \<open>
  The transactions of the window, in chain order, whose address matches the local account
  and whose nonce is at least 0; and the nonce as the specification words it: 1 plus the
  maximum of their nonces, or 0 when there is none.
\<close>

definition localNoncedTxs :: "('db, 'tp) externals \<Rightarrow> ('db, 'tp) node \<Rightarrow> tx list" where
  "localNoncedTxs X nd =
     filter (\<lambda>t. areSameAddresses X (address t) (account_address (account nd)) \<and> nonce t \<ge> 0)
       (concat (map transactions (chain (bc nd))))"

definition nonce_by_maximum :: "('db, 'tp) externals \<Rightarrow> ('db, 'tp) node \<Rightarrow> int" where
  "nonce_by_maximum X nd =
     (if localNoncedTxs X nd = [] then 0 else 1 + Max (set (map nonce (localNoncedTxs X nd))))"

text \<open>
  The strict lexicographic order on timer keys \<open>(number, round)\<close>.
\<close>

definition ti_less :: "timeout_info \<Rightarrow> timeout_info \<Rightarrow> bool" where
  "ti_less a b = (ti_number a < ti_number b \<or> (ti_number a = ti_number b \<and> ti_round a < ti_round b))"

text \<open>
  The proposer as the specification words it: the first address, in sorted order, whose
  cumulative stake strictly exceeds the target. The cumulative stake of an address is the
  sum, in JavaScript numbers, of the stakes of the sorted addresses up to it.
\<close>

definition firstExceeding :: "(string \<times> int) list \<Rightarrow> double \<Rightarrow> string option" where
  "firstExceeding vs target =
     (let sorted_addresses = sort (map fst vs)
      in map_option (\<lambda>i. sorted_addresses ! i)
           (List.find
              (\<lambda>i. greater
                     (foldl fadd (Finite 0 0) (map (stakeOf vs) (take (Suc i) sorted_addresses)))
                     target)
              [0..<length sorted_addresses]))"

text \<open>
  A double in \<open>[0, 1)\<close>, given by a significand below \<open>2^53\<close> and an exponent; and the
  stake of a validator as the integer it is.
\<close>

definition unitSample :: "double \<Rightarrow> bool" where
  "unitSample d =
     (case d of
        Finite m e \<Rightarrow> 0 \<le> m \<and> m < 2 ^ 53 \<and> - 1074 \<le> e \<and> e \<le> 0 \<and> m < 2 ^ nat (- e)
      | _ \<Rightarrow> False)"

definition stakeInt :: "(string \<times> int) list \<Rightarrow> string \<Rightarrow> int" where
  "stakeInt vs a = (case map_of vs a of None \<Rightarrow> 0 | Some st \<Rightarrow> st)"

section \<open>Concrete inputs\<close>

text \<open>
  Inputs at which the theorems below are exercised: a database that is the journal of the
  transactions executed on it, transactions and blocks with given key fields, and a block
  store holding a given window.
\<close>

definition journal :: "tx list \<Rightarrow> tx list \<Rightarrow> tx list" where
  "journal txs d = d @ txs"

definition ex_tx :: "string \<Rightarrow> int \<Rightarrow> tx" where
  "ex_tx a n = \<lparr>address = a, nonce = n, operation = SET_VALUE [''test''] (Number n)\<rparr>"

definition ex_block :: "int \<Rightarrow> string \<Rightarrow> string \<Rightarrow> tx list \<Rightarrow> block" where
  "ex_block n h lh txs =
     \<lparr>number = n, hash = h, last_hash = lh, timestamp = 0, transactions = txs,
      proposer = ''0xa'', validators = [(''0xa'', 100)]\<rparr>"

definition ex_store :: "block list \<Rightarrow> (tx list) blockchain" where
  "ex_store ch = \<lparr>chain = ch, backupDb = Some [], syncedAfterStartup = False, files = ch\<rparr>"

definition ex_numbered :: "int \<Rightarrow> block" where
  "ex_numbered n = ex_block n ''h'' ''h'' [ex_tx ''0xa'' n]"

definition ex_window :: "block list" where
  "ex_window =
     [ex_numbered 0, ex_numbered 1, ex_numbered 2, ex_numbered 3, ex_numbered 4,
      ex_numbered 5, ex_numbered 6, ex_numbered 7, ex_numbered 8, ex_numbered 9]"

definition ex_empty_store :: "(tx list) blockchain" where
  "ex_empty_store = \<lparr>chain = [], backupDb = None, syncedAfterStartup = False, files = []\<rparr>"

text \<open>
  A full set of parameters: the journal database, a snapshot that is copied, a pool that
  is the list of its valid transactions, addresses compared by equality, a PRNG whose
  sample is \<open>0.3333333333333333\<close> on the seed \<open>deadbeef0\<close> and a quarter of the length of
  the seed modulo 4 otherwise. A node on a given window before \<open>init\<close>, and a
  window on which the nonces of the local account decrease.
\<close>

definition ex_X :: "(tx list, tx list) externals" where
  "ex_X =
     \<lparr>executeTransactionList = journal,
      setDbToSnapshot = (\<lambda>s d. case s of None \<Rightarrow> [] | Some x \<Rightarrow> x),
      newDB = [],
      getDeposit = (\<lambda>d a. None),
      getValidTransactions = (\<lambda>p. p),
      updateNonceTrackers = (\<lambda>txs p. p),
      cleanUpForNewBlock = (\<lambda>b p. filter (\<lambda>t. t \<notin> set (transactions b)) p),
      areSameAddresses = (=),
      newTransaction = (\<lambda>k td. \<lparr>address = k, nonce = td_nonce td, operation = td_operation td\<rparr>),
      validateHashes = (\<lambda>b. True),
      validateProposedBlock = (\<lambda>b B. True),
      seedrandom =
        (\<lambda>s. if s = ''deadbeef0'' then Finite 6004799503160661 (- 54)
             else Finite (int (length s mod 4)) (- 2)),
      STAKE = 100,
      MAX_CONSENSUS_STATE_DB = 1000,
      TRANSITION_TIMEOUT_MS = 100,
      DAY_MS = 86400000,
      now = 0\<rparr>"

definition ex_node :: "block list \<Rightarrow> (tx list, tx list) node" where
  "ex_node ch =
     \<lparr>bc = \<lparr>chain = ch, backupDb = None, syncedAfterStartup = False, files = ch\<rparr>,
      tp = [ex_tx ''0xb'' 7], db = [], node_nonce = None, initialized = False,
      account = \<lparr>account_address = ''0xa'', private_key = ''key''\<rparr>\<rparr>"

definition ex_unordered :: "block list" where
  "ex_unordered =
     [ex_block 0 ''h0'' [] [ex_tx ''0xa'' 5, ex_tx ''0xb'' 0],
      ex_block 1 ''h1'' ''h0'' [ex_tx ''0xa'' 2, ex_tx ''0xa'' (- 1)]]"

text \<open>
  A running engine on a given window, at a given height and round, with its timer armed;
  a proposal message; and a block that records three validators of stake 100 each.
\<close>

definition ex_engine :: "block list \<Rightarrow> int \<Rightarrow> int \<Rightarrow> (tx list, tx list) consensus" where
  "ex_engine ch n r =
     \<lparr>node = ex_node ch, server = [], status = RUNNING, timeoutId = Some 0,
      timeoutInfo = Some \<lparr>ti_number = n, ti_round = r\<rparr>,
      state = \<lparr>state_number = n, state_round = r, state_proposer = Some ''0xa''\<rparr>,
      timers = [(0, HandleTimeout \<lparr>ti_number = n, ti_round = r\<rparr>, 1000)],
      nextTimerId = 1\<rparr>"

definition ex_propose :: "block \<Rightarrow> message" where
  "ex_propose b = \<lparr>msg_type = ''PROPOSE'', msg_value = Some b\<rparr>"

definition ex_staked :: block where
  "ex_staked =
     \<lparr>number = 4, hash = ''deadbeef'', last_hash = ''h3'', timestamp = 0, transactions = [],
      proposer = ''A'', validators = [(''C'', 100), (''A'', 100), (''B'', 100)]\<rparr>"

text \<open>
  A block that records two validators of stake 1 and one of stake \<open>2^53\<close>, and the
  parameters with a PRNG whose sample is always \<open>1 - 2^-53\<close>.
\<close>

definition ex_heavy :: block where
  "ex_heavy =
     \<lparr>number = 4, hash = ''deadbeef'', last_hash = ''h3'', timestamp = 0, transactions = [],
      proposer = ''a'', validators = [(''c'', 1), (''b'', 1), (''a'', 9007199254740992)]\<rparr>"

definition ex_X_top :: "(tx list, tx list) externals" where
  "ex_X_top = ex_X\<lparr>seedrandom := (\<lambda>s. Finite 9007199254740991 (- 53))\<rparr>"

section \<open>Properties of the block store\<close>

lemma shiftOut_result:
  "shiftOut ex ch bdb = Inr (ch', bdb') \<Longrightarrow>
     length ch' \<le> 10 \<and>
     (\<exists>shifted. ch = shifted @ ch'
        \<and> (shifted \<noteq> [] \<longrightarrow> bdb \<noteq> None)
        \<and> bdb' = map_option (\<lambda>d. foldl (\<lambda>d s. ex (transactions s) d) d shifted) bdb)
     \<and> (length ch \<le> 10 \<longrightarrow> ch' = ch)
     \<and> (ch \<noteq> [] \<longrightarrow> ch' \<noteq> [] \<and> last ch' = last ch)"
proof (induction ex ch bdb rule: shiftOut.induct)
  case (1 ex ch bdb)
  show ?case
  proof (cases "length ch > 10")
    case False
    with "1.prems" have "ch' = ch" "bdb' = bdb"
      by (simp_all add: shiftOut.simps)
    with False show ?thesis by (simp add: option.map_ident)
  next
    case True
    then obtain x xs where ch: "ch = x # xs" by (cases ch) auto
    from True "1.prems" obtain d where d: "bdb = Some d"
      by (cases bdb) (simp_all add: shiftOut.simps)
    from True d ch "1.prems"
    have rec: "shiftOut ex xs (Some (ex (transactions x) d)) = Inr (ch', bdb')"
      by (simp add: shiftOut.simps)
    from "1.IH"[OF True d] rec ch
    have ih: "length ch' \<le> 10 \<and>
     (\<exists>shifted. xs = shifted @ ch'
        \<and> bdb' = Some (foldl (\<lambda>d s. ex (transactions s) d) (ex (transactions x) d) shifted))
     \<and> (xs \<noteq> [] \<longrightarrow> ch' \<noteq> [] \<and> last ch' = last xs)"
      by auto
    then obtain shifted where sh: "xs = shifted @ ch'"
      "bdb' = Some (foldl (\<lambda>d s. ex (transactions s) d) (ex (transactions x) d) shifted)"
      by blast
    have "ch = (x # shifted) @ ch' \<and> (x # shifted \<noteq> [] \<longrightarrow> bdb \<noteq> None)
        \<and> bdb' = map_option (\<lambda>d. foldl (\<lambda>d s. ex (transactions s) d) d (x # shifted)) bdb"
      using sh ch d by simp
    then have ex: "\<exists>shifted. ch = shifted @ ch'
        \<and> (shifted \<noteq> [] \<longrightarrow> bdb \<noteq> None)
        \<and> bdb' = map_option (\<lambda>d. foldl (\<lambda>d s. ex (transactions s) d) d shifted) bdb"
      by blast
    from True ch have "xs \<noteq> []" by auto
    with ih ch have "ch' \<noteq> [] \<and> last ch' = last ch" by simp
    with ih ex True show ?thesis by simp
  qed
qed

lemma lastBlock_eq: "lastBlock B = (if chain B = [] then None else Some (last (chain B)))"
  by (simp add: lastBlock_def last_conv_nth)

lemma chain_writeChain: "chain (writeChain B) = chain B" "backupDb (writeChain B) = backupDb B"
  "syncedAfterStartup (writeChain B) = syncedAfterStartup B"
  by (simp_all add: writeChain_def)

lemma addNewBlock_accept:
  "addNewBlock ex blk B = Inr (True, B') \<Longrightarrow>
     \<exists>b ch' bdb'. blk = Some b \<and> number b = lastBlockNumber B + 1
       \<and> shiftOut ex (chain B @ [b]) (backupDb B) = Inr (ch', bdb')
       \<and> B' = writeChain (B\<lparr>chain := ch', backupDb := bdb'\<rparr>)"
  by (auto simp: addNewBlock_def split: option.splits if_splits sum.splits)

lemma ex_numbered_fields:
  "number (ex_numbered n) = n" "transactions (ex_numbered n) = [ex_tx ''0xa'' n]"
  "getFileName (ex_numbered n) = (n, ''h'')"
  by (simp_all add: ex_numbered_def ex_block_def getFileName_def)

lemma flagSynced_eq: "flagSynced B = B\<lparr>syncedAfterStartup := True\<rparr>"
  by (simp add: flagSynced_def)

subsection \<open>Appending a block\<close>

text \<open>
  Claim C2, as amended. A block that \<open>addNewBlock\<close> accepts has the number
  \<open>lastBlockNumber() + 1\<close>: the number of the previous last block plus 1, and 0 on an
  empty window; it becomes the last block. \<open>addNewBlock\<close> returns false and leaves the
  store as it is when the block is missing or its number is not \<open>lastBlockNumber() + 1\<close>.
  The \<open>last_hash\<close> of the block is not examined by \<open>addNewBlock\<close>.
\<close>

theorem addNewBlock_number_gate:
  "(addNewBlock ex (Some b) B = Inr (True, B') \<longrightarrow>
      number b = lastBlockNumber B + 1
      \<and> (\<forall>p. lastBlock B = Some p \<longrightarrow> number b = number p + 1)
      \<and> (lastBlock B = None \<longrightarrow> number b = 0)
      \<and> lastBlock B' = Some b)
   \<and> addNewBlock ex None B = Inr (False, B)
   \<and> (number b \<noteq> lastBlockNumber B + 1 \<longrightarrow> addNewBlock ex (Some b) B = Inr (False, B))"
proof (intro conjI impI)
  assume a: "addNewBlock ex (Some b) B = Inr (True, B')"
  from addNewBlock_accept[OF a] obtain ch' bdb' where
    n: "number b = lastBlockNumber B + 1" and
    sh: "shiftOut ex (chain B @ [b]) (backupDb B) = Inr (ch', bdb')" and
    B': "B' = writeChain (B\<lparr>chain := ch', backupDb := bdb'\<rparr>)"
    by auto
  from n show "number b = lastBlockNumber B + 1" .
  from n show "\<forall>p. lastBlock B = Some p \<longrightarrow> number b = number p + 1"
    by (simp add: lastBlockNumber_def)
  from n show "lastBlock B = None \<Longrightarrow> number b = 0"
    by (simp add: lastBlockNumber_def)
  from shiftOut_result[OF sh] have "ch' \<noteq> [] \<and> last ch' = b" by simp
  with B' show "lastBlock B' = Some b"
    by (simp add: lastBlock_eq chain_writeChain)
next
  show "addNewBlock ex None B = Inr (False, B)" by (simp add: addNewBlock_def)
next
  assume "number b \<noteq> lastBlockNumber B + 1"
  then show "addNewBlock ex (Some b) B = Inr (False, B)" by (simp add: addNewBlock_def)
qed

text \<open>
  The claim as stated also requires \<open>last_hash\<close> to be the hash of the previous last
  block. \<open>addNewBlock\<close> accepts a block of number 1 on a window ending in block 0 whatever
  its \<open>last_hash\<close> is.
\<close>

theorem addNewBlock_last_hash_counterexample:
  "addNewBlock journal (Some (ex_block 1 ''h1'' ''other'' []))
       (ex_store [ex_block 0 ''h0'' [] []])
     = Inr (True, \<lparr>chain = [ex_block 0 ''h0'' [] [], ex_block 1 ''h1'' ''other'' []],
                   backupDb = Some [], syncedAfterStartup = False,
                   files = [ex_block 0 ''h0'' [] [], ex_block 1 ''h1'' ''other'' []]\<rparr>)
   \<and> lastBlock (ex_store [ex_block 0 ''h0'' [] []]) = Some (ex_block 0 ''h0'' [] [])
   \<and> last_hash (ex_block 1 ''h1'' ''other'' []) \<noteq> hash (ex_block 0 ''h0'' [] [])"
  by (simp add: addNewBlock_def lastBlockNumber_def lastBlock_def ex_store_def ex_block_def
      shiftOut.simps writeChain_def writeBlock_def getFileName_def)

theorem addNewBlock_number_gate_witness:
  "lastBlock (ex_store [ex_block 0 ''h0'' [] []]) = Some (ex_block 0 ''h0'' [] [])
   \<and> number (ex_block 1 ''h1'' ''other'' []) = number (ex_block 0 ''h0'' [] []) + 1
   \<and> addNewBlock journal (Some (ex_block 5 ''h5'' ''h0'' [])) (ex_store [ex_block 0 ''h0'' [] []])
       = Inr (False, ex_store [ex_block 0 ''h0'' [] []])"
proof -
  let ?B = "ex_store [ex_block 0 ''h0'' [] []]"
  let ?B' = "\<lparr>chain = [ex_block 0 ''h0'' [] [], ex_block 1 ''h1'' ''other'' []],
                   backupDb = Some [], syncedAfterStartup = False,
                   files = [ex_block 0 ''h0'' [] [], ex_block 1 ''h1'' ''other'' []]\<rparr>"
  have h1: "addNewBlock journal (Some (ex_block 1 ''h1'' ''other'' [])) ?B = Inr (True, ?B')"
    by (simp add: addNewBlock_def lastBlockNumber_def lastBlock_def ex_store_def ex_block_def
      shiftOut.simps writeChain_def writeBlock_def getFileName_def)
  have h2: "lastBlock ?B = Some (ex_block 0 ''h0'' [] [])"
    by (simp add: lastBlock_def ex_store_def)
  have h3: "number (ex_block 5 ''h5'' ''h0'' []) \<noteq> lastBlockNumber ?B + 1"
    by (simp add: lastBlockNumber_def lastBlock_def ex_store_def ex_block_def)
  from addNewBlock_number_gate[of journal "ex_block 1 ''h1'' ''other'' []" ?B ?B'] h1 h2
  have "number (ex_block 1 ''h1'' ''other'' []) = number (ex_block 0 ''h0'' [] []) + 1"
    by blast
  moreover from addNewBlock_number_gate[of journal "ex_block 5 ''h5'' ''h0'' []" ?B ?B'] h3
  have "addNewBlock journal (Some (ex_block 5 ''h5'' ''h0'' [])) ?B = Inr (False, ?B)"
    by blast
  ultimately show ?thesis using h2 by simp
qed

text \<open>
  Claim C5. After a successful \<open>addNewBlock\<close> the window holds at most 10 blocks. The
  blocks shifted out are the oldest ones of the old window with the new block appended, and
  the snapshot db is the old one after one \<open>executeTransactionList\<close> per shifted block, on
  the transaction list of that block, in the order of shifting.
\<close>

theorem addNewBlock_window:
  "addNewBlock ex blk B = Inr (True, B') \<Longrightarrow>
     length (chain B') \<le> 10
     \<and> (\<exists>b shifted. blk = Some b
          \<and> chain B @ [b] = shifted @ chain B'
          \<and> (shifted \<noteq> [] \<longrightarrow> backupDb B \<noteq> None)
          \<and> backupDb B' =
              map_option (\<lambda>d. foldl (\<lambda>d s. ex (transactions s) d) d shifted) (backupDb B))"
proof -
  assume a: "addNewBlock ex blk B = Inr (True, B')"
  from addNewBlock_accept[OF a] obtain b ch' bdb' where
    blk: "blk = Some b" and
    sh: "shiftOut ex (chain B @ [b]) (backupDb B) = Inr (ch', bdb')" and
    B': "B' = writeChain (B\<lparr>chain := ch', backupDb := bdb'\<rparr>)"
    by auto
  from B' have c: "chain B' = ch'" "backupDb B' = bdb'"
    by (simp_all add: chain_writeChain)
  from shiftOut_result[OF sh] c blk show ?thesis by auto
qed

lemma ex_window_len: "length ex_window = 10" by (simp add: ex_window_def)

theorem addNewBlock_window_witness:
  "length (chain (ex_store ex_window)) = 10
   \<and> addNewBlock journal (Some (ex_numbered 10)) (ex_store ex_window)
       = Inr (True, \<lparr>chain = tl ex_window @ [ex_numbered 10],
                     backupDb = Some [ex_tx ''0xa'' 0], syncedAfterStartup = False,
                     files = ex_window @ [ex_numbered 10]\<rparr>)
   \<and> length (tl ex_window @ [ex_numbered 10]) \<le> 10"
proof -
  let ?b = "ex_numbered 10"
  let ?B' = "\<lparr>chain = tl ex_window @ [?b],
                     backupDb = Some [ex_tx ''0xa'' 0], syncedAfterStartup = False,
                     files = ex_window @ [?b]\<rparr>"
  have h: "addNewBlock journal (Some ?b) (ex_store ex_window) = Inr (True, ?B')"
    by (simp add: addNewBlock_def lastBlockNumber_def lastBlock_def ex_store_def
      shiftOut.simps writeChain_def writeBlock_def ex_window_def journal_def
      ex_numbered_fields)
  from addNewBlock_window[OF h] have "length (chain ?B') \<le> 10" by blast
  with h show ?thesis by (simp add: ex_store_def ex_window_len)
qed

subsection \<open>Merging a received section\<close>

text \<open>
  Claim C3, as amended. For a received section that is not empty and whose last block's
  number is at most the local last block number, \<open>merge\<close> returns false and appends
  nothing. When the two numbers are equal the node is flagged as synced after startup;
  when the section's last number is lower, the store, the flag included, stays as it is.
\<close>

theorem merge_not_newer:
  "sec \<noteq> [] \<Longrightarrow> number (last sec) \<le> lastBlockNumber B \<Longrightarrow>
     (number (last sec) < lastBlockNumber B \<longrightarrow> merge ex vh sec B = Inr (False, B))
     \<and> (number (last sec) = lastBlockNumber B \<longrightarrow>
          merge ex vh sec B = Inr (False, B\<lparr>syncedAfterStartup := True\<rparr>))"
  by (simp add: merge_def last_conv_nth flagSynced_eq)

text \<open>
  The claim as stated flags the node in both cases. A section ending in block 1, received
  on a window ending in block 2 before any sync, is rejected and the flag stays false.
\<close>

theorem merge_lower_counterexample:
  "number (last [ex_numbered 1])
     \<le> lastBlockNumber (ex_store [ex_numbered 0, ex_numbered 1, ex_numbered 2])
   \<and> \<not> syncedAfterStartup (ex_store [ex_numbered 0, ex_numbered 1, ex_numbered 2])
   \<and> merge journal (\<lambda>b. True) [ex_numbered 1] (ex_store [ex_numbered 0, ex_numbered 1, ex_numbered 2])
       = Inr (False, ex_store [ex_numbered 0, ex_numbered 1, ex_numbered 2])
   \<and> \<not> syncedAfterStartup (snd (projr (merge journal (\<lambda>b. True) [ex_numbered 1]
            (ex_store [ex_numbered 0, ex_numbered 1, ex_numbered 2]))))"
  by (simp add: merge_def lastBlockNumber_def lastBlock_def ex_store_def ex_numbered_fields)

theorem merge_not_newer_witness:
  "merge journal (\<lambda>b. True) [ex_numbered 1] (ex_store [ex_numbered 0, ex_numbered 1, ex_numbered 2])
       = Inr (False, ex_store [ex_numbered 0, ex_numbered 1, ex_numbered 2])
   \<and> merge journal (\<lambda>b. True) [ex_numbered 2] (ex_store [ex_numbered 0, ex_numbered 1, ex_numbered 2])
       = Inr (False, (ex_store [ex_numbered 0, ex_numbered 1, ex_numbered 2])
                        \<lparr>syncedAfterStartup := True\<rparr>)"
proof -
  let ?B = "ex_store [ex_numbered 0, ex_numbered 1, ex_numbered 2]"
  have n: "lastBlockNumber ?B = 2"
    by (simp add: lastBlockNumber_def lastBlock_def ex_store_def ex_numbered_fields)
  have a: "merge journal (\<lambda>b. True) [ex_numbered 1] ?B = Inr (False, ?B)"
    using merge_not_newer[of "[ex_numbered 1]" ?B journal "\<lambda>b. True"] n
    by (simp add: ex_numbered_fields)
  have b: "merge journal (\<lambda>b. True) [ex_numbered 2] ?B
             = Inr (False, ?B\<lparr>syncedAfterStartup := True\<rparr>)"
    using merge_not_newer[of "[ex_numbered 2]" ?B journal "\<lambda>b. True"] n
    by (simp add: ex_numbered_fields)
  from a b show ?thesis by simp
qed

subsection \<open>Serving a section\<close>

text \<open>
  Claim C10. On a store whose window is empty and whose chain directory has no block file
  in the requested range, \<open>requestBlockchainSection\<close> throws a \<open>TypeError\<close> (it reads
  \<open>hash\<close> of the \<open>null\<close> last block) instead of returning \<open>null\<close>; on a store whose
  window is not empty it returns.
\<close>

theorem requestBlockchainSection_needs_chain:
  "(chain B = []
      \<and> getBlockFiles B (case refBlock of None \<Rightarrow> 0 | Some r \<Rightarrow> number r)
           ((case refBlock of None \<Rightarrow> 0 | Some r \<Rightarrow> number r) + CHAIN_SUBSECT_LENGTH) = []
      \<longrightarrow> requestBlockchainSection refBlock B = Inl TypeError)
   \<and> (chain B \<noteq> [] \<longrightarrow> (\<exists>r. requestBlockchainSection refBlock B = Inr r))"
  by (simp add: requestBlockchainSection_def lastBlock_def Let_def)

theorem requestBlockchainSection_needs_chain_witness:
  "requestBlockchainSection None ex_empty_store = Inl TypeError
   \<and> requestBlockchainSection (Some (ex_numbered 0)) ex_empty_store = Inl TypeError
   \<and> (\<exists>r. requestBlockchainSection None (ex_store [ex_numbered 0]) = Inr r)"
proof -
  have f: "getBlockFiles ex_empty_store i j = []" for i j
    by (simp add: getBlockFiles_def ex_empty_store_def)
  have c: "chain ex_empty_store = []" "chain (ex_store [ex_numbered 0]) \<noteq> []"
    by (simp_all add: ex_empty_store_def ex_store_def)
  from requestBlockchainSection_needs_chain[of ex_empty_store None] f c
  have 1: "requestBlockchainSection None ex_empty_store = Inl TypeError" by simp
  from requestBlockchainSection_needs_chain[of ex_empty_store "Some (ex_numbered 0)"] f c
  have 2: "requestBlockchainSection (Some (ex_numbered 0)) ex_empty_store = Inl TypeError" by simp
  from requestBlockchainSection_needs_chain[of "ex_store [ex_numbered 0]" None] c
  have 3: "\<exists>r. requestBlockchainSection None (ex_store [ex_numbered 0]) = Inr r" by simp
  from 1 2 3 show ?thesis by simp
qed

section \<open>Properties of the node\<close>

lemma last_filter_holds: "filter P ts \<noteq> [] \<Longrightarrow> P (last (filter P ts))"
proof -
  assume "filter P ts \<noteq> []"
  then have "last (filter P ts) \<in> set (filter P ts)" by (rule last_in_set)
  then show ?thesis by simp
qed

lemma getNonce_txs_rev:
  "getNonce_txs same a n (rev ts) =
     (let ms = filter (\<lambda>t. same (address t) a \<and> nonce t > - 1) ts
      in if ms = [] then n else nonce (last ms) + 1)"
  by (induction ts rule: rev_induct) (simp_all add: Let_def)

lemma getNonce_blocks_rev:
  "getNonce_blocks same a 0 (rev bs) =
     (let ms = filter (\<lambda>t. same (address t) a \<and> nonce t > - 1) (concat (map transactions bs))
      in if ms = [] then 0 else nonce (last ms) + 1)"
proof (induction bs rule: rev_induct)
  case Nil
  show ?case by simp
next
  case (snoc b bs)
  let ?P = "\<lambda>t. same (address t) a \<and> nonce t > - 1"
  show ?case
  proof (cases "filter ?P (transactions b) = []")
    case True
    then have "getNonce_txs same a 0 (rev (transactions b)) = 0"
      by (simp add: getNonce_txs_rev)
    with True snoc show ?thesis by simp
  next
    case False
    from last_filter_holds[of ?P, OF False]
    have p: "nonce (last (filter ?P (transactions b))) > - 1" by simp
    from False have g: "getNonce_txs same a 0 (rev (transactions b))
        = nonce (last (filter ?P (transactions b))) + 1"
      by (simp add: getNonce_txs_rev)
    from p g have "getNonce_blocks same a 0 (rev (bs @ [b]))
        = nonce (last (filter ?P (transactions b))) + 1"
      by (simp add: Let_def)
    with False show ?thesis by simp
  qed
qed

lemma getNonce_newest:
  "getNonce X nd =
     (if localNoncedTxs X nd = [] then 0 else nonce (last (localNoncedTxs X nd)) + 1)"
proof -
  have eq: "filter (\<lambda>t. areSameAddresses X (address t) (account_address (account nd)) \<and> nonce t > - 1) ts
      = filter (\<lambda>t. areSameAddresses X (address t) (account_address (account nd)) \<and> nonce t \<ge> 0) ts"
    for ts :: "tx list"
    by (rule filter_cong) auto
  show ?thesis
    by (simp add: getNonce_def getNonce_blocks_rev localNoncedTxs_def Let_def eq)
qed

lemma Max_sorted_last:
  fixes xs :: "int list"
  shows "sorted xs \<Longrightarrow> xs \<noteq> [] \<Longrightarrow> Max (set xs) = last xs"
proof (induction xs)
  case Nil
  then show ?case by simp
next
  case (Cons x xs)
  show ?case
  proof (cases "xs = []")
    case True
    then show ?thesis by simp
  next
    case False
    with Cons have m: "Max (set xs) = last xs" by simp
    from False have "last xs \<in> set xs" by simp
    with Cons.prems have "x \<le> last xs" by auto
    with False m show ?thesis by (simp add: max_def)
  qed
qed

lemma db_executeChainOnDb:
  "db (foldl (\<lambda>n b. n\<lparr>db := ex (transactions b) (db n), tp := up (transactions b) (tp n)\<rparr>) nd bs)
     = foldl (\<lambda>d b. ex (transactions b) d) (db nd) bs"
  by (induction bs arbitrary: nd) simp_all

lemma tp_executeChainOnDb:
  "tp (foldl (\<lambda>n b. n\<lparr>db := ex (transactions b) (db n), tp := up (transactions b) (tp n)\<rparr>) nd bs)
     = foldl (\<lambda>p b. up (transactions b) p) (tp nd) bs"
  by (induction bs arbitrary: nd) simp_all

lemma rest_executeChainOnDb:
  "bc (foldl (\<lambda>n b. n\<lparr>db := ex (transactions b) (db n), tp := up (transactions b) (tp n)\<rparr>) nd bs)
     = bc nd"
  "node_nonce (foldl (\<lambda>n b. n\<lparr>db := ex (transactions b) (db n), tp := up (transactions b) (tp n)\<rparr>) nd bs)
     = node_nonce nd"
  by (induction bs arbitrary: nd) simp_all

lemma reconstruct_fields:
  "bc (reconstruct X nd) = bc nd"
  "node_nonce (reconstruct X nd) = node_nonce nd"
  "tp (reconstruct X nd) = foldl (\<lambda>p b. updateNonceTrackers X (transactions b) p) (tp nd) (chain (bc nd))"
  "db (reconstruct X nd) =
     executeTransactionList X
       (getValidTransactions X
          (foldl (\<lambda>p b. updateNonceTrackers X (transactions b) p) (tp nd) (chain (bc nd))))
       (foldl (\<lambda>d b. executeTransactionList X (transactions b) d)
          (setDbToSnapshot X (backupDb (bc nd)) (db nd)) (chain (bc nd)))"
  by (simp_all add: reconstruct_def executeChainOnDb_def Let_def db_executeChainOnDb
      tp_executeChainOnDb rest_executeChainOnDb)

lemma foldl_unchanged: "foldl (\<lambda>p b. p) p bs = p"
  by (induction bs) simp_all

subsection \<open>The initial nonce\<close>

text \<open>
  Claim C4, as amended. After \<open>Node.init\<close> on a window, the local nonce is 1 plus the nonce
  of the newest transaction of the window (the last one in chain order) whose address
  matches the local account and whose nonce is at least 0, or 0 if there is none. It is 1
  plus the maximum of these nonces when they do not decrease along the chain.
\<close>

theorem node_init_nonce:
  "node_init X nd = Inr nd' \<Longrightarrow>
     node_nonce nd' =
       Some (if localNoncedTxs X nd = [] then 0 else nonce (last (localNoncedTxs X nd)) + 1)
     \<and> (sorted (map nonce (localNoncedTxs X nd)) \<longrightarrow> node_nonce nd' = Some (nonce_by_maximum X nd))"
proof -
  assume a: "node_init X nd = Inr nd'"
  then obtain B where B: "setBackupDb (newDB X) (bc nd) = Inr B"
    by (auto simp: node_init_def split: sum.splits)
  then have ch: "chain B = chain (bc nd)"
    by (auto simp: setBackupDb_def split: if_splits)
  from a B have "nd' = (reconstruct X (nd\<lparr>bc := B, node_nonce := Some (getNonce X (nd\<lparr>bc := B\<rparr>))\<rparr>))
      \<lparr>initialized := True\<rparr>"
    by (simp add: node_init_def Let_def)
  then have "node_nonce nd' = Some (getNonce X (nd\<lparr>bc := B\<rparr>))"
    by (simp add: reconstruct_fields)
  moreover have "localNoncedTxs X (nd\<lparr>bc := B\<rparr>) = localNoncedTxs X nd"
    by (simp add: localNoncedTxs_def ch)
  ultimately have n: "node_nonce nd' =
       Some (if localNoncedTxs X nd = [] then 0 else nonce (last (localNoncedTxs X nd)) + 1)"
    by (simp add: getNonce_newest)
  have "nonce_by_maximum X nd =
      (if localNoncedTxs X nd = [] then 0 else nonce (last (localNoncedTxs X nd)) + 1)"
    if s: "sorted (map nonce (localNoncedTxs X nd))"
  proof (cases "localNoncedTxs X nd = []")
    case True
    then show ?thesis by (simp add: nonce_by_maximum_def)
  next
    case False
    with Max_sorted_last[OF s] show ?thesis
      by (simp add: nonce_by_maximum_def last_map)
  qed
  with n show ?thesis by simp
qed

text \<open>
  The claim as stated takes the maximum. On a window where the local account has the
  nonce 5 in block 0 and the nonce 2 in block 1, \<open>init\<close> sets the nonce to 3, not to 6.
\<close>

theorem getNonce_maximum_counterexample:
  "map_sum id node_nonce (node_init ex_X (ex_node ex_unordered)) = Inr (Some 3)
   \<and> nonce_by_maximum ex_X (ex_node ex_unordered) = 6"
  by (simp add: node_init_def setBackupDb_def ex_node_def ex_X_def Let_def reconstruct_fields
      getNonce_def ex_unordered_def ex_block_def ex_tx_def nonce_by_maximum_def localNoncedTxs_def)

theorem node_init_nonce_witness:
  "map_sum id node_nonce (node_init ex_X (ex_node ex_unordered)) = Inr (Some 3)
   \<and> map_sum id node_nonce (node_init ex_X (ex_node ex_window)) = Inr (Some 10)
   \<and> nonce_by_maximum ex_X (ex_node ex_window) = 10"
proof -
  have i: "node_init ex_X (ex_node ch) = Inr (projr (node_init ex_X (ex_node ch)))" for ch
    by (simp add: node_init_def setBackupDb_def Let_def ex_node_def)
  have u: "localNoncedTxs ex_X (ex_node ex_unordered) = [ex_tx ''0xa'' 5, ex_tx ''0xa'' 2]"
    by (simp add: localNoncedTxs_def ex_node_def ex_X_def ex_unordered_def ex_block_def ex_tx_def)
  have w: "map nonce (localNoncedTxs ex_X (ex_node ex_window)) = [0, 1, 2, 3, 4, 5, 6, 7, 8, 9]"
    by (simp add: localNoncedTxs_def ex_node_def ex_X_def ex_window_def ex_numbered_fields ex_tx_def)
  then have w': "localNoncedTxs ex_X (ex_node ex_window) \<noteq> []" by auto
  have 1: "node_nonce (projr (node_init ex_X (ex_node ex_unordered))) = Some 3"
    using node_init_nonce[OF i, of ex_unordered] u by (simp add: ex_tx_def)
  have 2: "node_nonce (projr (node_init ex_X (ex_node ex_window)))
             = Some (nonce_by_maximum ex_X (ex_node ex_window))"
  proof -
    have "sorted (map nonce (localNoncedTxs ex_X (ex_node ex_window)))" by (simp add: w)
    with node_init_nonce[OF i, of ex_window] show ?thesis by blast
  qed
  have 3: "nonce_by_maximum ex_X (ex_node ex_window) = 10"
    using w w' by (simp add: nonce_by_maximum_def)
  from 1 2 3 i[of ex_unordered] i[of ex_window] show ?thesis
    by (metis map_sum.simps(2))
qed

subsection \<open>Reconstruction of the live db\<close>

text \<open>
  Claim C9. Let \<open>setDbToSnapshot\<close> copy the snapshot over the live db whatever the live
  db holds, and let the valid transactions of the pool be the same after the nonce
  trackers have been updated with the transactions of a list of blocks twice as after
  once (the trackers are the only part of the pool \<open>reconstruct\<close> writes). Then the live db
  after two successive calls of \<open>reconstruct\<close> is the live db after one: the snapshot, then
  the transactions of the blocks of the window in order, then the valid transactions of
  the pool.
\<close>

theorem reconstruct_idempotent:
  assumes copy: "\<forall>s d d'. setDbToSnapshot X s d = setDbToSnapshot X s d'"
    and pool: "\<forall>(bs :: block list) p.
        getValidTransactions X
          (foldl (\<lambda>p b. updateNonceTrackers X (transactions b) p)
             (foldl (\<lambda>p b. updateNonceTrackers X (transactions b) p) p bs) bs)
        = getValidTransactions X (foldl (\<lambda>p b. updateNonceTrackers X (transactions b) p) p bs)"
  shows "db (reconstruct X (reconstruct X nd)) = db (reconstruct X nd)
    \<and> db (reconstruct X nd) =
        executeTransactionList X
          (getValidTransactions X
             (foldl (\<lambda>p b. updateNonceTrackers X (transactions b) p) (tp nd) (chain (bc nd))))
          (foldl (\<lambda>d b. executeTransactionList X (transactions b) d)
             (setDbToSnapshot X (backupDb (bc nd)) (db nd)) (chain (bc nd)))"
proof -
  let ?replay = "\<lambda>d0 txs. executeTransactionList X txs
          (foldl (\<lambda>d b. executeTransactionList X (transactions b) d) d0 (chain (bc nd)))"
  let ?track = "\<lambda>p. foldl (\<lambda>p b. updateNonceTrackers X (transactions b) p) p (chain (bc nd))"
  have once: "db (reconstruct X nd)
      = ?replay (setDbToSnapshot X (backupDb (bc nd)) (db nd))
          (getValidTransactions X (?track (tp nd)))"
    by (simp add: reconstruct_fields)
  have "db (reconstruct X (reconstruct X nd))
      = ?replay (setDbToSnapshot X (backupDb (bc nd)) (db (reconstruct X nd)))
          (getValidTransactions X (?track (tp (reconstruct X nd))))"
    by (simp add: reconstruct_fields(1,4))
  also have "setDbToSnapshot X (backupDb (bc nd)) (db (reconstruct X nd))
      = setDbToSnapshot X (backupDb (bc nd)) (db nd)"
    using copy by blast
  also have "getValidTransactions X (?track (tp (reconstruct X nd)))
      = getValidTransactions X (?track (tp nd))"
    using pool by (simp add: reconstruct_fields(3))
  finally have twice: "db (reconstruct X (reconstruct X nd))
      = ?replay (setDbToSnapshot X (backupDb (bc nd)) (db nd))
          (getValidTransactions X (?track (tp nd)))" .
  from once twice show ?thesis by simp
qed

theorem reconstruct_idempotent_witness:
  "db (reconstruct ex_X (reconstruct ex_X (ex_node [ex_numbered 0, ex_numbered 1])))
     = [ex_tx ''0xa'' 0, ex_tx ''0xa'' 1, ex_tx ''0xb'' 7]
   \<and> db (reconstruct ex_X (ex_node [ex_numbered 0, ex_numbered 1]))
     = [ex_tx ''0xa'' 0, ex_tx ''0xa'' 1, ex_tx ''0xb'' 7]"
proof -
  have copy: "\<forall>s d d'. setDbToSnapshot ex_X s d = setDbToSnapshot ex_X s d'"
    by (simp add: ex_X_def)
  have pool: "\<forall>(bs :: block list) p.
        getValidTransactions ex_X
          (foldl (\<lambda>p b. updateNonceTrackers ex_X (transactions b) p)
             (foldl (\<lambda>p b. updateNonceTrackers ex_X (transactions b) p) p bs) bs)
        = getValidTransactions ex_X
            (foldl (\<lambda>p b. updateNonceTrackers ex_X (transactions b) p) p bs)"
    by (simp add: ex_X_def foldl_unchanged)
  from reconstruct_idempotent[OF copy pool, of "ex_node [ex_numbered 0, ex_numbered 1]"]
  show ?thesis
    by (simp add: ex_X_def ex_node_def ex_numbered_fields journal_def)
qed

section \<open>Properties of the rounding\<close>

lemma bits_nonneg: "0 \<le> bits n"
  by (induction n rule: bits.induct) (simp add: bits.simps)

lemma bits_upper: "0 \<le> n \<Longrightarrow> n < 2 ^ nat (bits n)"
proof (induction n rule: bits.induct)
  case (1 n)
  show ?case
  proof (cases "n \<le> 0")
    case True
    with "1.prems" show ?thesis by (simp add: bits.simps)
  next
    case False
    then have b: "bits n = 1 + bits (n div 2)" by (simp add: bits.simps)
    from False "1.IH" have ih: "n div 2 < 2 ^ nat (bits (n div 2))" by simp
    have "nat (1 + bits (n div 2)) = Suc (nat (bits (n div 2)))"
      using bits_nonneg[of "n div 2"] by arith
    moreover from ih have "n < 2 * 2 ^ nat (bits (n div 2))" by arith
    ultimately show ?thesis using b by simp
  qed
qed

lemma bits_lower: "0 < n \<Longrightarrow> 2 ^ nat (bits n - 1) \<le> n"
proof (induction n rule: bits.induct)
  case (1 n)
  from "1.prems" have b: "bits n = 1 + bits (n div 2)" by (simp add: bits.simps)
  show ?case
  proof (cases "n div 2 \<le> 0")
    case True
    then have "bits (n div 2) = 0" by (simp add: bits.simps)
    with b "1.prems" show ?thesis by simp
  next
    case False
    with "1.IH" "1.prems" have ih: "2 ^ nat (bits (n div 2) - 1) \<le> n div 2" by simp
    from False have "bits (n div 2) = 1 + bits (n div 2 div 2)" by (simp add: bits.simps)
    with bits_nonneg[of "n div 2 div 2"] have "nat (bits (n div 2)) = Suc (nat (bits (n div 2) - 1))"
      by arith
    moreover from ih have "2 * 2 ^ nat (bits (n div 2) - 1) \<le> n" by arith
    ultimately show ?thesis using b by simp
  qed
qed

lemma bits_le: "0 \<le> n \<Longrightarrow> n < 2 ^ j \<Longrightarrow> bits n \<le> int j"
proof (rule ccontr)
  assume n: "0 \<le> n" "n < 2 ^ j" and c: "\<not> bits n \<le> int j"
  then have "0 < n" by (cases "n = 0") (simp_all add: bits.simps)
  from bits_lower[OF this] have l: "(2::int) ^ nat (bits n - 1) \<le> n" .
  from c have "j \<le> nat (bits n - 1)" by simp
  then have "(2::int) ^ j \<le> 2 ^ nat (bits n - 1)" by (simp add: power_increasing)
  with l n(2) show False by simp
qed

lemma round53_small: "0 \<le> n \<Longrightarrow> n < 2 ^ 53 \<Longrightarrow> round53 n 0 = Finite n 0"
proof -
  assume n: "0 \<le> n" "n < 2 ^ 53"
  from bits_le[OF n] have "bits n \<le> 53" by simp
  with n(1) show ?thesis by (simp add: round53_def finiteOrInfinity_def max_def)
qed

lemma fadd_small:
  "0 \<le> a \<Longrightarrow> 0 \<le> b \<Longrightarrow> a + b < 2 ^ 53 \<Longrightarrow> fadd (Finite a 0) (Finite b 0) = Finite (a + b) 0"
  by (simp add: round53_small)

lemma round53_product_below:
  fixes m T c :: int and s :: nat
  assumes m: "0 \<le> m" "m < 2 ^ 53" "m < 2 ^ s" and s: "s \<le> 1074"
    and T: "0 < T" "T < 2 ^ 53" "T \<le> c"
  shows "\<exists>q j. round53 (m * T) (- int s) = Finite q (- int j) \<and> q < c * 2 ^ j"
proof -
  define M where "M = m * T"
  have M0: "0 \<le> M" using m(1) T(1) by (simp add: M_def)
  have "m + 1 \<le> 2 ^ s" using m(3) by simp
  then have "(m + 1) * T \<le> 2 ^ s * T" using T(1) by (intro mult_right_mono) simp_all
  then have Ms: "M + T \<le> 2 ^ s * T" by (simp add: M_def algebra_simps)
  have "m * T < 2 ^ 53 * T" using m(2) T(1) by (intro mult_strict_right_mono) simp_all
  then have M53: "M < 2 ^ 53 * T" by (simp add: M_def)
  have "2 ^ s * T \<le> 2 ^ s * c" using T(3) by (intro mult_left_mono) simp_all
  with Ms have "M + T \<le> 2 ^ s * c" by linarith
  then have Mc: "M + T \<le> c * 2 ^ s" by (simp only: mult.commute)
  have "2 ^ s * T < (2::int) ^ s * 2 ^ 53" using T(2) by (intro mult_strict_left_mono) simp_all
  with Ms T(1) have "M < (2::int) ^ s * 2 ^ 53" by linarith
  then have "M < 2 ^ (s + 53)" by (simp only: power_add)
  from bits_le[OF M0 this] have bs: "bits M \<le> int s + 53" by simp
  define k where "k = max (bits M - 53) (- 1074 - (- int s))"
  have r: "round53 M (- int s) =
     (if k \<le> 0 then finiteOrInfinity M (- int s)
      else finiteOrInfinity
             (if 2 * (M mod 2 ^ nat k) > 2 ^ nat k
                 \<or> (2 * (M mod 2 ^ nat k) = 2 ^ nat k \<and> odd (M div 2 ^ nat k))
              then M div 2 ^ nat k + 1 else M div 2 ^ nat k)
             (- int s + k))"
    using M0 by (simp add: round53_def k_def Let_def)
  show ?thesis
  proof (cases "k \<le> 0")
    case True
    then have "bits M \<le> 53" by (simp add: k_def)
    then have "finiteOrInfinity M (- int s) = Finite M (- int s)"
      using M0 by (simp add: finiteOrInfinity_def)
    with r True have "round53 M (- int s) = Finite M (- int s)" by simp
    moreover from Mc T(1) have "M < c * 2 ^ s" by simp
    ultimately show ?thesis unfolding M_def by blast
  next
    case False
    with s have k: "k = bits M - 53" "0 < k" by (simp_all add: k_def)
    define K where "K = nat k"
    have K: "int K = k" "0 < K" using k by (simp_all add: K_def)
    from k bits_nonneg have Mpos: "0 < M"
      using M0 by (cases "M = 0") (simp_all add: bits.simps)
    have "nat (bits M - 1) = K + 52" using k by (simp add: K_def)
    with bits_lower[OF Mpos] have low: "2 ^ (K + 52) \<le> M" by simp
    with M53 have "(2::int) ^ K * 2 ^ 52 < 2 ^ 53 * T" by (simp add: power_add)
    then have KT: "2 ^ K < 2 * T" by simp
    from bs k have Ks: "K \<le> s" by (simp add: K_def)
    define j where "j = s - K"
    have sj: "s = j + K" using Ks by (simp add: j_def)
    define q0 where "q0 = M div 2 ^ K"
    define r0 where "r0 = M mod 2 ^ K"
    have dm: "M = q0 * 2 ^ K + r0" unfolding q0_def r0_def by (rule div_mult_mod_eq[symmetric])
    have r0: "0 \<le> r0" "r0 < 2 ^ K" by (simp_all add: r0_def)
    have q0n: "0 \<le> q0" using M0 by (simp add: q0_def pos_imp_zdiv_nonneg_iff)
    define q' where "q' = (if 2 * r0 > 2 ^ K \<or> (2 * r0 = 2 ^ K \<and> odd q0) then q0 + 1 else q0)"
    have q'n: "0 \<le> q'" using q0n by (simp add: q'_def)
    have up: "2 * (q' * 2 ^ K) \<le> 2 * M + 2 ^ K"
    proof (cases "2 * r0 > 2 ^ K \<or> (2 * r0 = 2 ^ K \<and> odd q0)")
      case True
      then have "2 * r0 \<ge> 2 ^ K" by auto
      moreover from True have "q' = q0 + 1" by (simp add: q'_def)
      ultimately show ?thesis using dm by (simp add: algebra_simps)
    next
      case False
      then have "q' = q0" by (simp add: q'_def)
      with dm r0 show ?thesis by (simp add: algebra_simps)
    qed
    have "M < 2 ^ nat (bits M)" using bits_upper[OF M0] .
    moreover have "nat (bits M) = 53 + K" using k by (simp add: K_def)
    ultimately have "M < 2 ^ 53 * 2 ^ K" by (simp add: power_add)
    with dm r0(1) have "q0 * 2 ^ K < 2 ^ 53 * 2 ^ K" by linarith
    then have "q0 < 2 ^ 53" by (simp only: mult_less_cancel_right) simp
    then have "q' < 2 ^ 54" using q0n by (simp add: q'_def)
    from bits_le[OF q'n this] have "bits q' \<le> 54" by simp
    then have f: "finiteOrInfinity q' (- int s + k) = Finite q' (- int s + k)"
      using q'n Ks K by (simp add: finiteOrInfinity_def)
    have e: "- int s + k = - int j" using sj K by simp
    from r False have "round53 M (- int s) = finiteOrInfinity q' (- int s + k)"
      unfolding q'_def q0_def r0_def K_def by simp
    with f e have res: "round53 M (- int s) = Finite q' (- int j)"
      by (simp only:)
    from up KT have "2 * (q' * 2 ^ K) < 2 * M + 2 * T" by simp
    also from Mc have "\<dots> \<le> 2 * (c * 2 ^ s)" by simp
    also have "\<dots> = 2 * ((c * 2 ^ j) * 2 ^ K)" by (simp add: sj power_add)
    finally have "q' * 2 ^ K < (c * 2 ^ j) * 2 ^ K" by simp
    then have "q' < c * 2 ^ j" by (simp add: mult_less_cancel_right)
    with res show ?thesis unfolding M_def by blast
  qed
qed

section \<open>Properties of the consensus engine\<close>

lemma scheduleTimeout_ignored:
  "timeoutInfo c = Some ti \<Longrightarrow> ti_less new ti \<Longrightarrow> scheduleTimeout new d c = c"
  by (simp add: scheduleTimeout_def ti_less_def)

lemma scheduleTimeout_installed:
  "timeoutInfo c = Some ti \<Longrightarrow> \<not> ti_less new ti \<Longrightarrow>
     scheduleTimeout new d c =
       c\<lparr>timeoutInfo := Some new, timeoutId := Some (nextTimerId c),
         timers := filter (\<lambda>t. Some (fst t) \<noteq> timeoutId c) (timers c)
                     @ [(nextTimerId c, HandleTimeout new, d)],
         nextTimerId := Suc (nextTimerId c)\<rparr>"
  by (cases "timeoutId c")
     (auto simp: scheduleTimeout_def ti_less_def setTimeout_def clearTimeout_def)

lemma ti_less_trans_not: "\<not> ti_less b a \<Longrightarrow> \<not> ti_less c b \<Longrightarrow> \<not> ti_less c a"
  by (auto simp: ti_less_def)

lemma scheduleTimeout_step:
  "timeoutInfo c = Some ti \<Longrightarrow>
     \<exists>ti'. timeoutInfo (scheduleTimeout new d c) = Some ti' \<and> \<not> ti_less ti' ti"
proof (cases "ti_less new ti")
  case True
  assume "timeoutInfo c = Some ti"
  with True show ?thesis by (auto simp: scheduleTimeout_ignored ti_less_def)
next
  case False
  assume "timeoutInfo c = Some ti"
  with False show ?thesis by (simp add: scheduleTimeout_installed)
qed

lemma scheduleTimeout_calls:
  "timeoutInfo c = Some ti \<Longrightarrow>
     \<exists>ti'. timeoutInfo (foldl (\<lambda>c0 (new, d). scheduleTimeout new d c0) c calls) = Some ti'
           \<and> \<not> ti_less ti' ti"
proof (induction calls arbitrary: c ti)
  case Nil
  then show ?case by (simp add: ti_less_def)
next
  case (Cons call calls)
  obtain new d where call: "call = (new, d)" by (cases call)
  from scheduleTimeout_step[OF Cons.prems, of new d] obtain t1 where
    t1: "timeoutInfo (scheduleTimeout new d c) = Some t1" "\<not> ti_less t1 ti" by blast
  from Cons.IH[OF t1(1)] obtain t2 where
    t2: "timeoutInfo (foldl (\<lambda>c0 (new, d). scheduleTimeout new d c0) (scheduleTimeout new d c) calls)
           = Some t2" "\<not> ti_less t2 t1" by blast
  from t1(2) t2(2) have "\<not> ti_less t2 ti" by (rule ti_less_trans_not)
  with t2(1) call show ?case by simp
qed

lemma ex_commit:
  "map_sum id (\<lambda>c'. (chain (bc (node c')), db (node c'), state c', server c', timers c'))
     (commit ex_X (ex_numbered 1) (ex_engine [ex_numbered 0] 1 0))
   = Inr ([ex_numbered 0, ex_numbered 1],
          [ex_tx ''0xa'' 0, ex_tx ''0xa'' 1, ex_tx ''0xb'' 7],
          \<lparr>state_number = 2, state_round = 0, state_proposer = Some ''0xa''\<rparr>,
          [],
          [(0, HandleTimeout \<lparr>ti_number = 1, ti_round = 0\<rparr>, 1000), (1, TryPropose, 100)])"
  by code_simp

lemma find_map: "List.find P (map f xs) = map_option f (List.find (\<lambda>x. P (f x)) xs)"
  by (induction xs) simp_all

lemma selectLoop_find:
  "selectLoop vs target cum ks =
     map_option (\<lambda>i. ks ! i)
       (List.find (\<lambda>i. greater (foldl fadd cum (map (stakeOf vs) (take (Suc i) ks))) target)
          [0..<length ks])"
proof (induction ks arbitrary: cum)
  case Nil
  show ?case by simp
next
  case (Cons a as)
  have up: "[0..<Suc (length as)] = 0 # map Suc [0..<length as]"
  proof -
    have "[0..<Suc (length as)] = 0 # [Suc 0..<Suc (length as)]"
      by (rule upt_conv_Cons) simp
    then show ?thesis by (simp only: map_Suc_upt)
  qed
  show ?case
  proof (cases "greater (fadd cum (stakeOf vs a)) target")
    case True
    then show ?thesis by (simp add: up del: upt_Suc)
  next
    case False
    then show ?thesis
      by (simp add: up Cons.IH find_map option.map_comp comp_def del: upt_Suc)
  qed
qed

lemma selectProposer_value:
  "getValidatorsAtNumber X (state_number (state c)) c = Some vs \<Longrightarrow> vs \<noteq> [] \<Longrightarrow>
   seedBlockOf X c = Some sb \<Longrightarrow>
     selectProposer X c =
       Inr (selectLoop vs
              (fmul (seedrandom X (hash sb @ decimal (state_round (state c))))
                 (foldl fadd (Finite 0 0) (map (\<lambda>v. fromInt (snd v)) vs)))
              (Finite 0 0) (sort (map fst vs)))"
  by (simp add: selectProposer_def Let_def)

lemma selectProposer_depends:
  "getValidatorsAtNumber X (state_number (state c)) c
     = getValidatorsAtNumber X (state_number (state c')) c' \<Longrightarrow>
   map_option hash (seedBlockOf X c) = map_option hash (seedBlockOf X c') \<Longrightarrow>
   state_round (state c) = state_round (state c') \<Longrightarrow>
     selectProposer X c = selectProposer X c'"
  by (auto simp: selectProposer_def Let_def split: option.splits)

lemma sum_list_insort:
  "sum_list (map f (insort x xs)) = f x + sum_list (map (f :: 'a::linorder \<Rightarrow> int) xs)"
  by (induction xs) simp_all

lemma sum_list_sort: "sum_list (map f (sort xs)) = sum_list (map (f :: 'a::linorder \<Rightarrow> int) xs)"
  by (induction xs) (simp_all add: sum_list_insort)

lemma stakeInt_keys:
  "distinct (map fst vs) \<Longrightarrow> map (stakeInt vs) (map fst vs) = map snd vs"
proof -
  assume d: "distinct (map fst vs)"
  have "stakeInt vs (fst p) = snd p" if "p \<in> set vs" for p
  proof -
    from that have "(fst p, snd p) \<in> set vs" by simp
    with d have "map_of vs (fst p) = Some (snd p)" by (simp only: map_of_eq_Some_iff)
    then show ?thesis by (simp add: stakeInt_def)
  qed
  then show ?thesis by simp
qed

lemma stakeOf_stakeInt: "map_of vs k \<noteq> None \<Longrightarrow> stakeOf vs k = fromInt (stakeInt vs k)"
  by (auto simp: stakeOf_def stakeInt_def)

lemma fromInt_small: "0 \<le> n \<Longrightarrow> n < 2 ^ 53 \<Longrightarrow> fromInt n = Finite n 0"
  by (simp add: fromInt_def round53_small)

lemma greater_aligned: "greater (Finite c 0) (Finite q (- int j)) = (q < c * 2 ^ j)"
  by simp

lemma total_exact:
  "\<forall>x \<in> set xs. 0 \<le> x \<Longrightarrow> 0 \<le> a \<Longrightarrow> a + sum_list xs < 2 ^ 53 \<Longrightarrow>
     foldl fadd (Finite a 0) (map fromInt xs) = Finite (a + sum_list xs) 0"
proof (induction xs arbitrary: a)
  case Nil
  show ?case by simp
next
  case (Cons x xs)
  from Cons.prems(1) have x: "0 \<le> x" and rest: "0 \<le> sum_list xs"
    by (simp_all add: sum_list_nonneg)
  with Cons.prems have small: "x < 2 ^ 53" "a + x < 2 ^ 53" by simp_all
  from x small(1) have "fromInt x = Finite x 0" by (rule fromInt_small)
  moreover from Cons.prems(2) x small(2)
  have "fadd (Finite a 0) (Finite x 0) = Finite (a + x) 0" by (rule fadd_small)
  moreover from Cons.prems x
  have "foldl fadd (Finite (a + x) 0) (map fromInt xs) = Finite ((a + x) + sum_list xs) 0"
    by (intro Cons.IH) simp_all
  ultimately show ?case by (simp add: add.assoc)
qed

lemma selectLoop_finds:
  "\<forall>k \<in> set ks. map_of vs k \<noteq> None \<and> 0 < stakeInt vs k \<Longrightarrow> ks \<noteq> [] \<Longrightarrow> 0 \<le> cum \<Longrightarrow>
   cum + sum_list (map (stakeInt vs) ks) < 2 ^ 53 \<Longrightarrow>
   q < (cum + sum_list (map (stakeInt vs) ks)) * 2 ^ j \<Longrightarrow>
     \<exists>a \<in> set ks. selectLoop vs (Finite q (- int j)) (Finite cum 0) ks = Some a"
proof (induction ks arbitrary: cum)
  case Nil
  then show ?case by simp
next
  case (Cons k ks)
  let ?n = "stakeInt vs k"
  from Cons.prems(1) have k: "map_of vs k \<noteq> None" "0 < ?n"
    and ks: "\<forall>k \<in> set ks. map_of vs k \<noteq> None \<and> 0 < stakeInt vs k" by simp_all
  from ks have rest: "0 \<le> sum_list (map (stakeInt vs) ks)"
    by (intro sum_list_nonneg) auto
  with Cons.prems(3,4) k(2) have small: "?n < 2 ^ 53" "cum + ?n < 2 ^ 53" by simp_all
  from k(1) have "stakeOf vs k = fromInt ?n" by (rule stakeOf_stakeInt)
  also from k(2) small(1) have "\<dots> = Finite ?n 0" by (intro fromInt_small) simp_all
  finally have st: "stakeOf vs k = Finite ?n 0" .
  from Cons.prems(3) k(2) small(2)
  have add: "fadd (Finite cum 0) (Finite ?n 0) = Finite (cum + ?n) 0"
    by (intro fadd_small) simp_all
  show ?case
  proof (cases "q < (cum + ?n) * 2 ^ j")
    case True
    then show ?thesis by (simp only: selectLoop.simps st add greater_aligned) simp
  next
    case False
    have ne: "ks \<noteq> []"
    proof
      assume "ks = []"
      with Cons.prems(5) False show False by simp
    qed
    from Cons.prems(3) k(2) have c0: "0 \<le> cum + ?n" by simp
    from Cons.prems(4) have c1: "(cum + ?n) + sum_list (map (stakeInt vs) ks) < 2 ^ 53"
      by (simp add: add.assoc)
    from Cons.prems(5) have c2: "q < ((cum + ?n) + sum_list (map (stakeInt vs) ks)) * 2 ^ j"
      by (simp add: add.assoc)
    from Cons.IH[OF ks ne c0 c1 c2] obtain a where
      "a \<in> set ks" "selectLoop vs (Finite q (- int j)) (Finite (cum + ?n) 0) ks = Some a"
      by blast
    with False show ?thesis by (simp only: selectLoop.simps st add greater_aligned) simp
  qed
qed

lemma selectLoop_comparisons_bound: "selectLoop_comparisons vs target cum ks \<le> length ks"
  by (induction ks arbitrary: cum) simp_all

lemma member_le_sum_list_int:
  "\<forall>x \<in> set xs. 0 \<le> x \<Longrightarrow> y \<in> set xs \<Longrightarrow> y \<le> sum_list (xs :: int list)"
proof (induction xs)
  case Nil
  then show ?case by simp
next
  case (Cons x xs)
  have nn: "0 \<le> sum_list xs" using Cons.prems(1) by (simp add: sum_list_nonneg)
  show ?case
  proof (cases "y = x")
    case True
    with nn show ?thesis by simp
  next
    case False
    with Cons have "y \<le> sum_list xs" by simp
    moreover from Cons.prems(1) have "0 \<le> x" by simp
    ultimately show ?thesis by simp
  qed
qed

lemma sum_list_pos_int:
  "xs \<noteq> [] \<Longrightarrow> \<forall>x \<in> set xs. 0 < x \<Longrightarrow> 0 < sum_list (xs :: int list)"
proof (induction xs)
  case Nil
  then show ?case by simp
next
  case (Cons x xs)
  then have "0 \<le> sum_list xs" by (simp add: sum_list_nonneg less_imp_le)
  moreover from Cons.prems have "0 < x" by simp
  ultimately show ?case by simp
qed

lemma ex_staked_inputs:
  "getValidatorsAtNumber ex_X (state_number (state (ex_engine [ex_staked] 5 r))) (ex_engine [ex_staked] 5 r)
     = Some [(''C'', 100), (''A'', 100), (''B'', 100)]"
  "seedBlockOf ex_X (ex_engine [ex_staked] 5 r) = Some ex_staked"
  "state_round (state (ex_engine [ex_staked] 5 r)) = r"
  by (simp_all add: getValidatorsAtNumber_def seedBlockOf_def lastBlock_def ex_engine_def
      ex_node_def ex_staked_def ex_X_def)

lemma ex_seed:
  "seedrandom ex_X (hash ex_staked @ decimal 10) = Finite 2 (- 2)"
  "seedrandom ex_X (hash ex_staked @ decimal 0) = Finite 6004799503160661 (- 54)"
  by (simp_all add: ex_X_def ex_staked_def decimal_def decimal_nat.simps)

lemma ex_first:
  "firstExceeding [(''C'', 100), (''A'', 100), (''B'', 100)]
     (fmul (Finite 2 (- 2))
        (foldl fadd (Finite 0 0)
           (map (\<lambda>v. fromInt (snd v)) [(''C'', 100), (''A'', 100), (''B'', 100)])))
     = Some ''B''"
  "firstExceeding [(''C'', 100), (''A'', 100), (''B'', 100)]
     (fmul (Finite 6004799503160661 (- 54))
        (foldl fadd (Finite 0 0)
           (map (\<lambda>v. fromInt (snd v)) [(''C'', 100), (''A'', 100), (''B'', 100)])))
     = Some ''B''"
  by code_simp+

lemma unitSample_Finite:
  "unitSample d \<Longrightarrow>
     \<exists>m e. d = Finite m e \<and> 0 \<le> m \<and> m < 2 ^ 53 \<and> m < 2 ^ nat (- e) \<and> - 1074 \<le> e \<and> e \<le> 0"
  by (cases d) (simp_all add: unitSample_def)

lemma ex_loop:
  "selectLoop [(''C'', 100), (''A'', 100), (''B'', 100)]
     (fmul (Finite 2 (- 2))
        (foldl fadd (Finite 0 0)
           (map (\<lambda>v. fromInt (snd v)) [(''C'', 100), (''A'', 100), (''B'', 100)])))
     (Finite 0 0) (sort (map fst [(''C'', 100 :: int), (''A'', 100), (''B'', 100)]))
     = Some ''B''"
  by code_simp

lemma ex_heavy_inputs:
  "getValidatorsAtNumber ex_X_top (state_number (state (ex_engine [ex_heavy] 5 0)))
       (ex_engine [ex_heavy] 5 0)
     = Some [(''c'', 1), (''b'', 1), (''a'', 9007199254740992)]"
  "seedBlockOf ex_X_top (ex_engine [ex_heavy] 5 0) = Some ex_heavy"
  "seedrandom ex_X_top seed = Finite 9007199254740991 (- 53)"
  by (simp_all add: getValidatorsAtNumber_def seedBlockOf_def lastBlock_def ex_engine_def
      ex_node_def ex_heavy_def ex_X_def ex_X_top_def)

lemma ex_heavy_loop:
  "selectLoop [(''c'', 1), (''b'', 1), (''a'', 9007199254740992)]
     (fmul (Finite 9007199254740991 (- 53))
        (foldl fadd (Finite 0 0)
           (map (\<lambda>v. fromInt (snd v)) [(''c'', 1), (''b'', 1), (''a'', 9007199254740992)])))
     (Finite 0 0) (sort (map fst [(''c'', 1 :: int), (''b'', 1), (''a'', 9007199254740992)]))
     = None"
  by code_simp

lemma seedBlock_exists:
  "getValidatorsAtNumber X (state_number (state c)) c = Some vs \<Longrightarrow>
   state_number (state c) \<noteq> 1 \<Longrightarrow> state_number (state c) \<le> MAX_CONSENSUS_STATE_DB X \<Longrightarrow>
     seedBlockOf X c = lastBlock (bc (node c)) \<and> seedBlockOf X c \<noteq> None"
  by (auto simp: getValidatorsAtNumber_def seedBlockOf_def split: option.splits)

subsection \<open>Scheduling the round timer\<close>

text \<open>
  Claim C7. While a timer with key \<open>(n, r)\<close> is armed, \<open>scheduleTimeout\<close> with a key that
  is strictly smaller in the lexicographic order changes nothing. With any other key the
  armed timer is cancelled and a timer for the new key is installed and recorded. Hence
  after any sequence of calls the armed key is not smaller than \<open>(n, r)\<close>.
\<close>

theorem scheduleTimeout_monotonic:
  "timeoutInfo c = Some ti \<Longrightarrow>
     (ti_less new ti \<longrightarrow> scheduleTimeout new d c = c)
     \<and> (\<not> ti_less new ti \<longrightarrow>
          timeoutInfo (scheduleTimeout new d c) = Some new
          \<and> timeoutId (scheduleTimeout new d c) = Some (nextTimerId c)
          \<and> timers (scheduleTimeout new d c) =
              filter (\<lambda>t. Some (fst t) \<noteq> timeoutId c) (timers c)
                @ [(nextTimerId c, HandleTimeout new, d)])
     \<and> (\<exists>ti'. timeoutInfo (foldl (\<lambda>c0 (new, d). scheduleTimeout new d c0) c calls) = Some ti'
            \<and> \<not> ti_less ti' ti)"
  by (simp add: scheduleTimeout_ignored scheduleTimeout_installed scheduleTimeout_calls)

theorem scheduleTimeout_monotonic_witness:
  "scheduleTimeout \<lparr>ti_number = 3, ti_round = 1\<rparr> 500 (ex_engine [] 3 2) = ex_engine [] 3 2
   \<and> timeoutInfo (scheduleTimeout \<lparr>ti_number = 4, ti_round = 0\<rparr> 500 (ex_engine [] 3 2))
       = Some \<lparr>ti_number = 4, ti_round = 0\<rparr>
   \<and> timers (scheduleTimeout \<lparr>ti_number = 4, ti_round = 0\<rparr> 500 (ex_engine [] 3 2))
       = [(1, HandleTimeout \<lparr>ti_number = 4, ti_round = 0\<rparr>, 500)]"
proof -
  have a: "timeoutInfo (ex_engine [] 3 2) = Some \<lparr>ti_number = 3, ti_round = 2\<rparr>"
    by (simp add: ex_engine_def)
  have l: "ti_less \<lparr>ti_number = 3, ti_round = 1\<rparr> \<lparr>ti_number = 3, ti_round = 2\<rparr>"
    by (simp add: ti_less_def)
  have n: "\<not> ti_less \<lparr>ti_number = 4, ti_round = 0\<rparr> \<lparr>ti_number = 3, ti_round = 2\<rparr>"
    by (simp add: ti_less_def)
  from scheduleTimeout_monotonic[OF a, of "\<lparr>ti_number = 3, ti_round = 1\<rparr>" 500 "[]"] l
  have 1: "scheduleTimeout \<lparr>ti_number = 3, ti_round = 1\<rparr> 500 (ex_engine [] 3 2) = ex_engine [] 3 2"
    by blast
  from scheduleTimeout_monotonic[OF a, of "\<lparr>ti_number = 4, ti_round = 0\<rparr>" 500 "[]"] n
  have 2: "timeoutInfo (scheduleTimeout \<lparr>ti_number = 4, ti_round = 0\<rparr> 500 (ex_engine [] 3 2))
       = Some \<lparr>ti_number = 4, ti_round = 0\<rparr>
    \<and> timers (scheduleTimeout \<lparr>ti_number = 4, ti_round = 0\<rparr> 500 (ex_engine [] 3 2))
       = filter (\<lambda>t. Some (fst t) \<noteq> timeoutId (ex_engine [] 3 2)) (timers (ex_engine [] 3 2))
                @ [(nextTimerId (ex_engine [] 3 2), HandleTimeout \<lparr>ti_number = 4, ti_round = 0\<rparr>, 500)]"
    by blast
  from 1 2 show ?thesis by (simp add: ex_engine_def)
qed

subsection \<open>Receiving a proposal\<close>

text \<open>
  Claim C6. A running engine that receives a \<open>PROPOSE\<close> message with a block: if the
  block's number is below \<open>state.number\<close> nothing changes; if it is above,
  \<open>syncedAfterStartup\<close> is set to false and \<open>requestChainSubsection\<close> is called with the
  local last block, and nothing else changes (no block is committed); if it is equal and
  \<open>checkProposal\<close> fails nothing changes; only if it is equal and \<open>checkProposal\<close> holds
  is \<open>commit\<close> called on the block, and the message broadcast after it.
\<close>

theorem handleConsensusMessage_dispatch:
  "status c = RUNNING \<Longrightarrow> msg_type msg = ''PROPOSE'' \<Longrightarrow> msg_value msg = Some v \<Longrightarrow>
     (number v < state_number (state c) \<longrightarrow> handleConsensusMessage X msg c = Inr c)
     \<and> (number v > state_number (state c) \<longrightarrow>
          handleConsensusMessage X msg c =
            Inr (c\<lparr>node := (node c)\<lparr>bc := (bc (node c))\<lparr>syncedAfterStartup := False\<rparr>\<rparr>,
                   server := server c @ [RequestChainSubsection (lastBlock (bc (node c)))]\<rparr>))
     \<and> (number v = state_number (state c) \<and> \<not> checkProposal X v c \<longrightarrow>
          handleConsensusMessage X msg c = Inr c)
     \<and> (number v = state_number (state c) \<and> checkProposal X v c \<longrightarrow>
          handleConsensusMessage X msg c =
            (case commit X v c of
               Inl e \<Rightarrow> Inl e
             | Inr c' \<Rightarrow> Inr (c'\<lparr>server := server c' @ [BroadcastConsensusMessage msg]\<rparr>)))"
  by (simp add: handleConsensusMessage_def)

theorem handleConsensusMessage_dispatch_witness:
  "handleConsensusMessage ex_X (ex_propose (ex_numbered 0)) (ex_engine [ex_numbered 0] 1 0)
     = Inr (ex_engine [ex_numbered 0] 1 0)
   \<and> map_sum id (\<lambda>c'. (syncedAfterStartup (bc (node c')), server c', chain (bc (node c'))))
       (handleConsensusMessage ex_X (ex_propose (ex_numbered 9)) (ex_engine [ex_numbered 0] 1 0))
     = Inr (False, [RequestChainSubsection (Some (ex_numbered 0))], [ex_numbered 0])
   \<and> map_sum id (\<lambda>c'. (chain (bc (node c')), state c', server c'))
       (handleConsensusMessage ex_X (ex_propose (ex_numbered 1)) (ex_engine [ex_numbered 0] 1 0))
     = Inr ([ex_numbered 0, ex_numbered 1],
            \<lparr>state_number = 2, state_round = 0, state_proposer = Some ''0xa''\<rparr>,
            [BroadcastConsensusMessage (ex_propose (ex_numbered 1))])"
proof -
  let ?c = "ex_engine [ex_numbered 0] 1 0"
  have run: "status ?c = RUNNING" by (simp add: ex_engine_def)
  have ty: "msg_type (ex_propose b) = ''PROPOSE''" "msg_value (ex_propose b) = Some b" for b
    by (simp_all add: ex_propose_def)
  have chk: "checkProposal ex_X (ex_numbered 1) ?c"
    by (simp add: checkProposal_def ex_X_def ex_engine_def ex_numbered_def ex_block_def)
  have n: "state_number (state ?c) = 1" by (simp add: ex_engine_def)
  from handleConsensusMessage_dispatch[OF run ty, of "ex_numbered 0" ex_X] n
  have 1: "handleConsensusMessage ex_X (ex_propose (ex_numbered 0)) ?c = Inr ?c"
    by (simp add: ex_numbered_fields)
  from handleConsensusMessage_dispatch[OF run ty, of "ex_numbered 9" ex_X] n
  have 2: "map_sum id (\<lambda>c'. (syncedAfterStartup (bc (node c')), server c', chain (bc (node c'))))
       (handleConsensusMessage ex_X (ex_propose (ex_numbered 9)) ?c)
     = Inr (False, [RequestChainSubsection (Some (ex_numbered 0))], [ex_numbered 0])"
    by (simp add: ex_numbered_fields ex_engine_def ex_node_def lastBlock_def)
  from ex_commit obtain c1 where c1: "commit ex_X (ex_numbered 1) ?c = Inr c1"
    "chain (bc (node c1)) = [ex_numbered 0, ex_numbered 1]"
    "state c1 = \<lparr>state_number = 2, state_round = 0, state_proposer = Some ''0xa''\<rparr>"
    "server c1 = []"
    by (cases "commit ex_X (ex_numbered 1) ?c") auto
  from handleConsensusMessage_dispatch[OF run ty, of "ex_numbered 1" ex_X] n chk c1
  have 3: "map_sum id (\<lambda>c'. (chain (bc (node c')), state c', server c'))
       (handleConsensusMessage ex_X (ex_propose (ex_numbered 1)) ?c)
     = Inr ([ex_numbered 0, ex_numbered 1],
            \<lparr>state_number = 2, state_round = 0, state_proposer = Some ''0xa''\<rparr>,
            [BroadcastConsensusMessage (ex_propose (ex_numbered 1))])"
    by (simp add: ex_numbered_fields)
  from 1 2 3 show ?thesis by simp
qed

subsection \<open>Electing the proposer\<close>

text \<open>
  Claim C1. With a non-empty validator set and a seed block, \<open>selectProposer\<close> returns the
  first address, in ascending sorted order, whose cumulative stake strictly exceeds the
  target: the sample of the PRNG seeded with the seed block's hash followed by the decimal
  round, times the total stake. Sums and product are those of JavaScript numbers. Two runs
  with the same validators, the same seed block hash and the same round return the same
  result.
\<close>

theorem selectProposer_deterministic:
  "(getValidatorsAtNumber X (state_number (state c)) c = Some vs \<and> vs \<noteq> []
      \<and> seedBlockOf X c = Some sb \<longrightarrow>
      selectProposer X c =
        Inr (firstExceeding vs
               (fmul (seedrandom X (hash sb @ decimal (state_round (state c))))
                  (foldl fadd (Finite 0 0) (map (\<lambda>v. fromInt (snd v)) vs)))))
   \<and> (getValidatorsAtNumber X (state_number (state c)) c
         = getValidatorsAtNumber X (state_number (state c')) c'
      \<and> map_option hash (seedBlockOf X c) = map_option hash (seedBlockOf X c')
      \<and> state_round (state c) = state_round (state c') \<longrightarrow>
      selectProposer X c = selectProposer X c')"
proof (intro conjI impI)
  assume "getValidatorsAtNumber X (state_number (state c)) c = Some vs \<and> vs \<noteq> []
      \<and> seedBlockOf X c = Some sb"
  then show "selectProposer X c =
        Inr (firstExceeding vs
               (fmul (seedrandom X (hash sb @ decimal (state_round (state c))))
                  (foldl fadd (Finite 0 0) (map (\<lambda>v. fromInt (snd v)) vs))))"
    by (simp add: selectProposer_value selectLoop_find firstExceeding_def Let_def)
next
  assume "getValidatorsAtNumber X (state_number (state c)) c
         = getValidatorsAtNumber X (state_number (state c')) c'
      \<and> map_option hash (seedBlockOf X c) = map_option hash (seedBlockOf X c')
      \<and> state_round (state c) = state_round (state c')"
  then show "selectProposer X c = selectProposer X c'"
    by (intro selectProposer_depends) simp_all
qed

theorem selectProposer_deterministic_witness:
  "selectProposer ex_X (ex_engine [ex_staked] 5 10) = Inr (Some ''B'')
   \<and> selectProposer ex_X (ex_engine [ex_staked] 5 0) = Inr (Some ''B'')
   \<and> selectProposer ex_X ((ex_engine [ex_staked] 5 10)\<lparr>server := [RequestChainSubsection None]\<rparr>)
       = selectProposer ex_X (ex_engine [ex_staked] 5 10)"
proof -
  let ?c = "ex_engine [ex_staked] 5 10"
  let ?c' = "?c\<lparr>server := [RequestChainSubsection None]\<rparr>"
  let ?vs = "[(''C'', 100), (''A'', 100), (''B'', 100)] :: (string \<times> int) list"
  have same:
    "getValidatorsAtNumber ex_X (state_number (state ?c')) ?c'
       = getValidatorsAtNumber ex_X (state_number (state ?c)) ?c
     \<and> map_option hash (seedBlockOf ex_X ?c') = map_option hash (seedBlockOf ex_X ?c)
     \<and> state_round (state ?c') = state_round (state ?c)"
    by (simp add: getValidatorsAtNumber_def seedBlockOf_def)
  from selectProposer_deterministic[of ex_X ?c ?vs ex_staked ?c]
  have 1: "selectProposer ex_X ?c = Inr (Some ''B'')"
    by (simp only: ex_staked_inputs ex_seed ex_first) simp
  from selectProposer_deterministic[of ex_X "ex_engine [ex_staked] 5 0" ?vs ex_staked ?c]
  have 0: "selectProposer ex_X (ex_engine [ex_staked] 5 0) = Inr (Some ''B'')"
    by (simp only: ex_staked_inputs ex_seed ex_first) simp
  from selectProposer_deterministic[of ex_X ?c' ?vs ex_staked ?c] same
  have 2: "selectProposer ex_X ?c' = selectProposer ex_X ?c"
    by blast
  from 0 1 2 show ?thesis by simp
qed

text \<open>
  Claim C8, as amended. For a non-empty validator set (an object, so every address is one
  key) in which every stake is a positive integer and the total stake is below \<open>2^53\<close>,
  with a seed block and a PRNG whose samples are doubles in \<open>[0, 1)\<close>, \<open>selectProposer\<close>
  returns a validator address (the fallback after the loop is not reached), its stake is
  positive and at most the total stake, and the loop compares at most as many times as
  there are validators. The seed block is the last block, which is there, whenever the
  validators are read from it and the height is at most \<open>MAX_CONSENSUS_STATE_DB\<close> (lemma
  \<open>seedBlock_exists\<close>).
\<close>

theorem selectProposer_returns_validator:
  assumes vs: "getValidatorsAtNumber X (state_number (state c)) c = Some vs"
    and ne: "vs \<noteq> []"
    and keys: "distinct (map fst vs)"
    and pos: "\<forall>st \<in> set (map snd vs). 0 < st"
    and bound: "sum_list (map snd vs) < 2 ^ 53"
    and sb: "seedBlockOf X c = Some sb"
    and rng: "\<forall>seed. unitSample (seedrandom X seed)"
  shows "\<exists>a. selectProposer X c = Inr (Some a)
           \<and> a \<in> set (map fst vs)
           \<and> 0 < stakeInt vs a
           \<and> stakeInt vs a \<le> sum_list (map snd vs)
           \<and> selectLoop_comparisons vs
                (fmul (seedrandom X (hash sb @ decimal (state_round (state c))))
                   (foldl fadd (Finite 0 0) (map (\<lambda>v. fromInt (snd v)) vs)))
                (Finite 0 0) (sort (map fst vs)) \<le> length vs"
proof -
  let ?T = "sum_list (map snd vs)"
  let ?r = "seedrandom X (hash sb @ decimal (state_round (state c)))"
  let ?total = "foldl fadd (Finite 0 0) (map (\<lambda>v. fromInt (snd v)) vs)"
  let ?target = "fmul ?r ?total"
  let ?ks = "sort (map fst vs)"
  from ne pos have T0: "0 < ?T" by (intro sum_list_pos_int) simp_all
  from pos have nn: "\<forall>x \<in> set (map snd vs). 0 \<le> x" by (simp add: less_imp_le)
  have "?total = foldl fadd (Finite 0 0) (map fromInt (map snd vs))" by (simp add: comp_def)
  also have "\<dots> = Finite (0 + ?T) 0"
  proof (rule total_exact)
    from nn show "\<forall>x \<in> set (map snd vs). 0 \<le> x" .
    show "(0::int) \<le> 0" by simp
    from bound show "0 + ?T < 2 ^ 53" by (simp only: add_0)
  qed
  finally have total: "?total = Finite ?T 0" by (simp only: add_0)
  from rng have "unitSample ?r" by blast
  then obtain m e where r: "?r = Finite m e"
    and m: "0 \<le> m" "m < 2 ^ 53" "m < 2 ^ nat (- e)" and e: "- 1074 \<le> e" "e \<le> 0"
    using unitSample_Finite by blast
  define s where "s = nat (- e)"
  from e have es: "e = - int s" and s: "s \<le> 1074" by (simp_all add: s_def)
  from m(3) have ms: "m < 2 ^ s" by (simp add: s_def)
  from round53_product_below[OF m(1,2) ms s T0 bound order_refl] obtain q j where
    q: "round53 (m * ?T) (- int s) = Finite q (- int j)" "q < ?T * 2 ^ j" by blast
  have "?target = fmul (Finite m e) (Finite ?T 0)" by (simp only: r total)
  also have "\<dots> = round53 (m * ?T) (e + 0)" by (simp only: fmul.simps)
  also have "e + 0 = - int s" using es by (simp only: add_0_right)
  finally have target: "?target = Finite q (- int j)" using q(1) by (simp only:)
  have sum: "sum_list (map (stakeInt vs) ?ks) = ?T"
    by (simp only: sum_list_sort stakeInt_keys[OF keys])
  have inkeys: "map_of vs k \<noteq> None \<and> 0 < stakeInt vs k" if "k \<in> set ?ks" for k
  proof -
    from that have "k \<in> fst ` set vs" by simp
    then obtain st where k: "(k, st) \<in> set vs" by auto
    with keys have "map_of vs k = Some st" by simp
    moreover from k pos have "0 < st" by force
    ultimately show ?thesis by (simp add: stakeInt_def)
  qed
  have kne: "?ks \<noteq> []"
  proof
    assume "?ks = []"
    then have "length ?ks = 0" by (simp only: list.size)
    then have "length vs = 0" by (simp only: length_sort length_map)
    with ne show False by simp
  qed
  from bound have c1: "0 + sum_list (map (stakeInt vs) ?ks) < 2 ^ 53"
    by (simp only: sum add_0)
  from q(2) have c2: "q < (0 + sum_list (map (stakeInt vs) ?ks)) * 2 ^ j"
    by (simp only: sum add_0)
  from selectLoop_finds[of ?ks vs 0 q j, OF _ kne _ c1 c2] inkeys obtain a where
    a: "a \<in> set ?ks" "selectLoop vs (Finite q (- int j)) (Finite 0 0) ?ks = Some a" by auto
  from a(1) have mem: "a \<in> set (map fst vs)" by simp
  from inkeys[OF a(1)] have p: "0 < stakeInt vs a" by simp
  from mem have "stakeInt vs a \<in> set (map (stakeInt vs) (map fst vs))" by auto
  then have "stakeInt vs a \<in> set (map snd vs)" by (simp only: stakeInt_keys[OF keys])
  from member_le_sum_list_int[OF nn this] have le: "stakeInt vs a \<le> ?T" .
  have "selectLoop_comparisons vs ?target (Finite 0 0) ?ks \<le> length ?ks"
    by (rule selectLoop_comparisons_bound)
  then have cmp: "selectLoop_comparisons vs ?target (Finite 0 0) ?ks \<le> length vs" by simp
  from selectProposer_value[OF vs ne sb] a(2)
  have "selectProposer X c = Inr (Some a)" by (simp only: target)
  with mem p le cmp show ?thesis by blast
qed

text \<open>
  The claim as stated has no bound on the stakes and no seed block. With the stakes 1, 1
  and \<open>2^53\<close> and the sample \<open>1 - 2^-53\<close> the total is \<open>2^53 + 2\<close>, the target rounds to
  \<open>2^53\<close>, and the cumulative sum of the sorted walk starts at \<open>2^53\<close> and stays there: the
  fallback is reached and \<open>selectProposer\<close> returns none. At height 1 on an empty window
  the validator set is the local account with \<open>STAKE\<close>, the seed block is \<open>null\<close>, and
  reading its hash throws.
\<close>

theorem selectProposer_fallback_counterexample:
  "getValidatorsAtNumber ex_X_top (state_number (state (ex_engine [ex_heavy] 5 0)))
       (ex_engine [ex_heavy] 5 0)
     = Some [(''c'', 1), (''b'', 1), (''a'', 9007199254740992)]
   \<and> selectProposer ex_X_top (ex_engine [ex_heavy] 5 0) = Inr None
   \<and> getValidatorsAtNumber ex_X (state_number (state (ex_engine [] 1 0))) (ex_engine [] 1 0)
     = Some [(''0xa'', 100)]
   \<and> selectProposer ex_X (ex_engine [] 1 0) = Inl TypeError"
proof -
  have ne: "[(''c'', 1 :: int), (''b'', 1), (''a'', 9007199254740992)] \<noteq> []" by simp
  have 1: "selectProposer ex_X_top (ex_engine [ex_heavy] 5 0) = Inr None"
    by (simp only: selectProposer_value[OF ex_heavy_inputs(1) ne ex_heavy_inputs(2)]
        ex_heavy_inputs(3) ex_heavy_loop)
  have 2: "getValidatorsAtNumber ex_X (state_number (state (ex_engine [] 1 0))) (ex_engine [] 1 0)
     = Some [(''0xa'', 100)]"
    by (simp add: getValidatorsAtNumber_def ex_engine_def ex_node_def ex_X_def)
  have 3: "selectProposer ex_X (ex_engine [] 1 0) = Inl TypeError"
    by (simp add: selectProposer_def getValidatorsAtNumber_def seedBlockOf_def lastBlock_def
        ex_engine_def ex_node_def ex_X_def)
  from ex_heavy_inputs(1) 1 2 3 show ?thesis by (simp only:)
qed

theorem selectProposer_returns_validator_witness:
  "selectProposer ex_X (ex_engine [ex_staked] 5 10) = Inr (Some ''B'')
   \<and> 0 < stakeInt [(''C'', 100), (''A'', 100), (''B'', 100)] ''B''
   \<and> stakeInt [(''C'', 100), (''A'', 100), (''B'', 100)] ''B''
        \<le> sum_list (map snd [(''C'', 100 :: int), (''A'', 100), (''B'', 100)])
   \<and> selectLoop_comparisons [(''C'', 100), (''A'', 100), (''B'', 100)]
        (fmul (Finite 2 (- 2))
           (foldl fadd (Finite 0 0)
              (map (\<lambda>v. fromInt (snd v)) [(''C'', 100), (''A'', 100), (''B'', 100)])))
        (Finite 0 0) (sort (map fst [(''C'', 100 :: int), (''A'', 100), (''B'', 100)])) \<le> 3"
proof -
  let ?c = "ex_engine [ex_staked] 5 10"
  let ?vs = "[(''C'', 100), (''A'', 100), (''B'', 100)] :: (string \<times> int) list"
  have rng: "\<forall>seed. unitSample (seedrandom ex_X seed)"
  proof
    fix seed :: string
    have "length seed mod 4 < 9007199254740992"
      by (rule less_trans[of _ 4]) simp_all
    then show "unitSample (seedrandom ex_X seed)"
      by (simp add: ex_X_def unitSample_def)
  qed
  have keys: "distinct (map fst ?vs)" by simp
  have pos: "\<forall>st \<in> set (map snd ?vs). 0 < st" by simp
  have bound: "sum_list (map snd ?vs) < 2 ^ 53" by simp
  have ne: "?vs \<noteq> []" by simp
  have v: "selectProposer ex_X ?c = Inr (Some ''B'')"
    by (simp only: selectProposer_value[OF ex_staked_inputs(1) ne ex_staked_inputs(2)]
        ex_staked_inputs(3) ex_seed ex_loop)
  from selectProposer_returns_validator[OF ex_staked_inputs(1) ne keys pos bound
      ex_staked_inputs(2) rng, of 10]
  obtain a where a: "selectProposer ex_X ?c = Inr (Some a)"
    "0 < stakeInt ?vs a" "stakeInt ?vs a \<le> sum_list (map snd ?vs)"
    "selectLoop_comparisons ?vs
       (fmul (seedrandom ex_X (hash ex_staked @ decimal (state_round (state ?c))))
          (foldl fadd (Finite 0 0) (map (\<lambda>v. fromInt (snd v)) ?vs)))
       (Finite 0 0) (sort (map fst ?vs)) \<le> length ?vs"
    by blast
  from a(1) v have "a = ''B''" by simp
  with a(2,3) have s: "0 < stakeInt ?vs ''B''" "stakeInt ?vs ''B'' \<le> sum_list (map snd ?vs)"
    by (simp_all only:)
  from a(4) have "selectLoop_comparisons ?vs
       (fmul (Finite 2 (- 2)) (foldl fadd (Finite 0 0) (map (\<lambda>v. fromInt (snd v)) ?vs)))
       (Finite 0 0) (sort (map fst ?vs)) \<le> length ?vs"
    by (simp only: ex_staked_inputs(3) ex_seed)
  moreover have "length ?vs = 3" by simp
  ultimately have cmp: "selectLoop_comparisons ?vs
       (fmul (Finite 2 (- 2)) (foldl fadd (Finite 0 0) (map (\<lambda>v. fromInt (snd v)) ?vs)))
       (Finite 0 0) (sort (map fst ?vs)) \<le> 3"
    by (simp only:)
  from v s cmp show ?thesis by (simp only:)
qed

end
